theory Spec2Isabelle
  imports Complex_Main "HOL-Library.Log_Nat" "HOL-Library.Word"
begin

text \<open>
  A rendering service: a request body is validated against a schema, a page of a shared
  headless browser renders the url or the html into a PDF or a screenshot, and a
  screenshot over the byte budget is re-encoded by the fitter \<^verbatim>\<open>compressImage\<close>.
  The schemas are lines 1 to 120 of \<^verbatim>\<open>src/src/schema.ts\<close>; the server (the routes,
  \<^verbatim>\<open>generatePdf\<close>, \<^verbatim>\<open>compressImage\<close>, \<^verbatim>\<open>generateImage\<close>) is lines 121 to 384 of the
  same file; the browser module is \<^verbatim>\<open>src/unnamed/part_000\<close>. The libraries (zod,
  puppeteer, sharp, hono) are outside the repository: zod is described by the combinators
  the schemas use, the browser and the codec are parameters. The request log, the API key
  check and the interleaving of concurrent requests are not modelled.
\<close>


section \<open>JavaScript numbers\<close>

text \<open>
  Every \<^verbatim>\<open>number\<close> of the source is an IEEE 754 binary64 value. A finite double is
  modelled by the rational it denotes; an arithmetic operation computes the exact
  rational result and rounds it to the nearest double, ties to even (\<open>rnd\<close>).
  NaN, the infinities, overflow and subnormals are not modelled: the numbers of this
  program come from JSON text and from pixel counts, and stay far inside the normal range.
\<close>

type_synonym number = rat

text \<open>\<open>ilog2 x\<close> is the binary exponent of a positive rational: \<open>2^k \<le> x < 2^(k+1)\<close>.\<close>

definition ilog2 :: "rat \<Rightarrow> int" where
  "ilog2 x = (let (a, b) = quotient_of x; k = bitlen a - bitlen b
              in if 2 powi k \<le> x then k else k - 1)"

definition round_half_even :: "rat \<Rightarrow> int" where
  "round_half_even y =
     (let f = \<lfloor>y\<rfloor>; r = y - of_int f
      in if r < 1 / 2 then f
         else if 1 / 2 < r then f + 1
         else if even f then f else f + 1)"

text \<open>Rounding to 53 significant bits.\<close>

definition rnd :: "rat \<Rightarrow> number" where
  "rnd x = (if x = 0 then 0
            else let e = ilog2 \<bar>x\<bar> - 52
                 in sgn x * of_int (round_half_even (\<bar>x\<bar> / 2 powi e)) * 2 powi e)"

text \<open>A decimal literal of the source text denotes the double nearest to it.\<close>

definition js_lit :: "rat \<Rightarrow> number" where
  "js_lit x = rnd x"

definition js_sub :: "number \<Rightarrow> number \<Rightarrow> number" where
  "js_sub a b = rnd (a - b)"

definition js_mul :: "number \<Rightarrow> number \<Rightarrow> number" where
  "js_mul a b = rnd (a * b)"

text \<open>\<^verbatim>\<open>Math.floor\<close> of a finite double.\<close>

definition js_floor :: "number \<Rightarrow> int" where
  "js_floor x = \<lfloor>x\<rfloor>"

text \<open>Truthiness of an optional string: present and not empty.\<close>

fun truthy_string :: "string option \<Rightarrow> bool" where
  "truthy_string None = False"
| "truthy_string (Some s) = (s \<noteq> [])"


section \<open>Request types\<close>

text \<open>
  A \<^verbatim>\<open>Uint8Array\<close>. With the encoding \<^verbatim>\<open>base64\<close> a screenshot is a string; its
  characters stand as the bytes then.
\<close>

type_synonym bytes = "8 word list"

datatype image_type = Jpeg | Png | Webp

datatype encoding_kind = Base64 | Binary

record viewport_size =
  vp_width :: number
  vp_height :: number

record clip_rect =
  clip_x :: number
  clip_y :: number
  clip_width :: number
  clip_height :: number

record margin_strings =
  top :: string
  right :: string
  bottom :: string
  left :: string

text \<open>
  The fields the two \<^verbatim>\<open>export\<close> objects share; \<open>pdf_export\<close> and \<open>image_export\<close>
  add the fields of their own schema.
\<close>

record export_options =
  scale :: number
  type :: image_type
  quality :: number
  fullPage :: bool
  clip :: "clip_rect option"
  omitBackground :: bool
  encoding :: encoding_kind
  viewport :: "viewport_size option"

record pdf_export = export_options +
  margin :: margin_strings
  printBackground :: bool

record image_export = export_options +
  maxFileSize :: number

record 'e request =
  url :: "string option"
  html :: "string option"
  export :: 'e

type_synonym PdfRequest = "pdf_export request"
type_synonym ImageRequest = "image_export request"


section \<open>The validator: JSON values and the zod combinators the schemas use\<close>

datatype json =
    JNull
  | JBool bool
  | JNumber number
  | JString string
  | JArray "json list"
  | JObject "(string \<times> json) list"

text \<open>Property lookup; of a repeated key \<^verbatim>\<open>JSON.parse\<close> keeps the last value.\<close>

definition jget :: "(string \<times> json) list \<Rightarrow> string \<Rightarrow> json option" where
  "jget kvs k = map_of (rev kvs) k"

text \<open>
  An issue carries its path; a \<open>Custom\<close> issue also carries the message given to
  \<^verbatim>\<open>refine\<close>. A parse either throws (an exception raised inside a refinement function
  escapes the parser), or returns the issues found so far and the value. The value is
  \<open>None\<close> when the parse aborted: a value of the wrong type aborts, a bound that is
  violated does not.
\<close>

datatype issue =
    Invalid_type "string list"
  | Too_small "string list"
  | Too_big "string list"
  | Invalid_enum_value "string list"
  | Custom "string list" string

datatype 'a parse_return =
    Threw string
  | Parsed "issue list" "'a option"

type_synonym 'a schema = "json option \<Rightarrow> 'a parse_return"

fun z_string :: "string list \<Rightarrow> string schema" where
  "z_string p (Some (JString s)) = Parsed [] (Some s)"
| "z_string p _ = Parsed [Invalid_type p] None"

fun z_boolean :: "string list \<Rightarrow> bool schema" where
  "z_boolean p (Some (JBool b)) = Parsed [] (Some b)"
| "z_boolean p _ = Parsed [Invalid_type p] None"

text \<open>\<^verbatim>\<open>z.number()\<close> followed by its checks (\<^verbatim>\<open>min\<close>, \<^verbatim>\<open>max\<close>, \<^verbatim>\<open>positive\<close>).\<close>

fun z_number :: "(string list \<Rightarrow> number \<Rightarrow> issue list) \<Rightarrow> string list \<Rightarrow> number schema" where
  "z_number checks p (Some (JNumber x)) = Parsed (checks p x) (Some x)"
| "z_number checks p _ = Parsed [Invalid_type p] None"

definition no_check :: "string list \<Rightarrow> number \<Rightarrow> issue list" where
  "no_check p x = []"

definition min_max :: "number \<Rightarrow> number \<Rightarrow> string list \<Rightarrow> number \<Rightarrow> issue list" where
  "min_max lo hi p x =
     (if x < lo then [Too_small p] else []) @ (if hi < x then [Too_big p] else [])"

definition positive :: "string list \<Rightarrow> number \<Rightarrow> issue list" where
  "positive p x = (if x \<le> 0 then [Too_small p] else [])"

fun z_enum :: "(string \<times> 'a) list \<Rightarrow> string list \<Rightarrow> 'a schema" where
  "z_enum tbl p (Some (JString s)) =
     (case map_of tbl s of
        Some a \<Rightarrow> Parsed [] (Some a)
      | None \<Rightarrow> Parsed [Invalid_enum_value p] None)"
| "z_enum tbl p _ = Parsed [Invalid_type p] None"

fun z_optional :: "'a schema \<Rightarrow> 'a option schema" where
  "z_optional s None = Parsed [] (Some None)"
| "z_optional s (Some j) =
     (case s (Some j) of
        Threw e \<Rightarrow> Threw e
      | Parsed is v \<Rightarrow> Parsed is (map_option Some v))"

fun z_default :: "json \<Rightarrow> 'a schema \<Rightarrow> 'a schema" where
  "z_default d s None = s (Some d)"
| "z_default d s (Some j) = s (Some j)"

text \<open>
  \<^verbatim>\<open>refine(f, message)\<close>: skipped when the inner parse aborted; an exception of \<open>f\<close>
  escapes; a falsy result adds a \<open>Custom\<close> issue and keeps the value.
\<close>

fun z_refine :: "('a \<Rightarrow> string + bool) \<Rightarrow> issue \<Rightarrow> 'a parse_return \<Rightarrow> 'a parse_return" where
  "z_refine f i (Threw e) = Threw e"
| "z_refine f i (Parsed is None) = Parsed is None"
| "z_refine f i (Parsed is (Some v)) =
     (case f v of
        Inl e \<Rightarrow> Threw e
      | Inr ok \<Rightarrow> Parsed (is @ (if ok then [] else [i])) (Some v))"

text \<open>
  \<^verbatim>\<open>z.object\<close> parses the keys of its shape in order and merges the results: the
  issues are concatenated, and the object aborts when one of its fields aborted. \<open>ap\<close>
  adds one field to the fields parsed before it.
\<close>

fun ap :: "('a \<Rightarrow> 'b) parse_return \<Rightarrow> 'a parse_return \<Rightarrow> 'b parse_return" where
  "ap (Threw e) _ = Threw e"
| "ap (Parsed is f) (Threw e) = Threw e"
| "ap (Parsed is f) (Parsed js a) =
     Parsed (is @ js) (case f of None \<Rightarrow> None | Some g \<Rightarrow> map_option g a)"

fun z_object :: "string list \<Rightarrow> ((string \<times> json) list \<Rightarrow> 'a parse_return) \<Rightarrow> 'a schema" where
  "z_object p shape (Some (JObject kvs)) = shape kvs"
| "z_object p shape _ = Parsed [Invalid_type p] None"

datatype rejection = Exception string | Issues "issue list"

fun safeParse :: "'a parse_return \<Rightarrow> rejection + 'a" where
  "safeParse (Threw e) = Inl (Exception e)"
| "safeParse (Parsed [] (Some v)) = Inr v"
| "safeParse (Parsed is v) = Inl (Issues is)"



section \<open>The schemas\<close>

text \<open>
  \<^verbatim>\<open>new URL(value)\<close> is the platform's URL parser; \<open>valid_url\<close> stands for "it does not
  throw" and is a parameter of everything below.
\<close>

definition urlCustom :: "(string \<Rightarrow> bool) \<Rightarrow> string \<Rightarrow> string + string" where
  "urlCustom valid_url value = (if valid_url value then Inr value else Inl ''Invalid URL'')"

text \<open>The argument is a string already, so only the emptiness test of \<^verbatim>\<open>!value\<close> remains.\<close>

definition htmlCustom :: "string \<Rightarrow> string + string" where
  "htmlCustom value = (if value = [] then Inl ''HTML content is required'' else Inr value)"

text \<open>A refinement function passes when the string it returns is truthy.\<close>

fun truthy_return :: "string + string \<Rightarrow> string + bool" where
  "truthy_return (Inl e) = Inl e"
| "truthy_return (Inr s) = Inr (s \<noteq> [])"

definition url_schema :: "(string \<Rightarrow> bool) \<Rightarrow> string option schema" where
  "url_schema valid_url =
     z_optional (\<lambda>j. z_refine (\<lambda>s. truthy_return (urlCustom valid_url s))
                         (Custom [''url''] ''Invalid input'') (z_string [''url''] j))"

definition html_schema :: "string option schema" where
  "html_schema =
     z_optional (\<lambda>j. z_refine (\<lambda>s. truthy_return (htmlCustom s))
                         (Custom [''html''] ''Invalid input'') (z_string [''html''] j))"

definition scale_schema :: "string list \<Rightarrow> number schema" where
  "scale_schema p = z_default (JNumber 1) (z_number (min_max (js_lit (1 / 10)) 2) p)"

definition type_schema :: "string list \<Rightarrow> image_type schema" where
  "type_schema p =
     z_default (JString ''png'') (z_enum [(''jpeg'', Jpeg), (''png'', Png), (''webp'', Webp)] p)"

definition quality_schema :: "string list \<Rightarrow> number schema" where
  "quality_schema p = z_default (JNumber 100) (z_number (min_max 0 100) p)"

definition boolean_default :: "bool \<Rightarrow> string list \<Rightarrow> bool schema" where
  "boolean_default b p = z_default (JBool b) (z_boolean p)"

definition clip_schema :: "string list \<Rightarrow> clip_rect option schema" where
  "clip_schema p =
     z_optional (z_object p (\<lambda>kvs.
       ap (ap (ap (ap (Parsed [] (Some (\<lambda>x y w h.
             \<lparr>clip_x = x, clip_y = y, clip_width = w, clip_height = h\<rparr>)))
         (z_number no_check (p @ [''x'']) (jget kvs ''x'')))
         (z_number no_check (p @ [''y'']) (jget kvs ''y'')))
         (z_number no_check (p @ [''width'']) (jget kvs ''width'')))
         (z_number no_check (p @ [''height'']) (jget kvs ''height''))))"

definition encoding_schema :: "string list \<Rightarrow> encoding_kind schema" where
  "encoding_schema p =
     z_default (JString ''binary'') (z_enum [(''base64'', Base64), (''binary'', Binary)] p)"

definition margin_schema :: "string list \<Rightarrow> margin_strings schema" where
  "margin_schema p =
     z_object p (\<lambda>kvs.
       ap (ap (ap (ap (Parsed [] (Some (\<lambda>t r b l.
             \<lparr>top = t, right = r, bottom = b, left = l\<rparr>)))
         (z_string (p @ [''top'']) (jget kvs ''top'')))
         (z_string (p @ [''right'']) (jget kvs ''right'')))
         (z_string (p @ [''bottom'']) (jget kvs ''bottom'')))
         (z_string (p @ [''left'']) (jget kvs ''left'')))"

definition viewport_schema :: "string list \<Rightarrow> viewport_size option schema" where
  "viewport_schema p =
     z_optional (z_object p (\<lambda>kvs.
       ap (ap (Parsed [] (Some (\<lambda>w h. \<lparr>vp_width = w, vp_height = h\<rparr>)))
         (z_default (JNumber 1280) (z_number positive (p @ [''width''])) (jget kvs ''width'')))
         (z_default (JNumber 720) (z_number positive (p @ [''height''])) (jget kvs ''height''))))"

definition maxFileSize_schema :: "string list \<Rightarrow> number schema" where
  "maxFileSize_schema p = z_default (JNumber (4 * 1024 * 1024)) (z_number positive p)"

text \<open>The argument of \<^verbatim>\<open>.default({...})\<close> on the \<^verbatim>\<open>export\<close> object of the PDF schema.\<close>

definition pdf_export_default :: json where
  "pdf_export_default =
     JObject [(''scale'', JNumber 1), (''type'', JString ''png''), (''quality'', JNumber 100),
       (''fullPage'', JBool True), (''omitBackground'', JBool False),
       (''encoding'', JString ''binary''),
       (''margin'', JObject [(''top'', JString ''0''), (''right'', JString ''0''),
          (''bottom'', JString ''0''), (''left'', JString ''0'')]),
       (''printBackground'', JBool False)]"

definition pdf_export_schema :: "pdf_export schema" where
  "pdf_export_schema =
     z_default pdf_export_default (z_object [''export''] (\<lambda>kvs.
       ap (ap (ap (ap (ap (ap (ap (ap (ap (ap (Parsed [] (Some (\<lambda>s t q f c ob en m pb v.
             \<lparr>scale = s, type = t, quality = q, fullPage = f, clip = c, omitBackground = ob,
              encoding = en, viewport = v, margin = m, printBackground = pb\<rparr>)))
         (scale_schema [''export'', ''scale''] (jget kvs ''scale'')))
         (type_schema [''export'', ''type''] (jget kvs ''type'')))
         (quality_schema [''export'', ''quality''] (jget kvs ''quality'')))
         (boolean_default True [''export'', ''fullPage''] (jget kvs ''fullPage'')))
         (clip_schema [''export'', ''clip''] (jget kvs ''clip'')))
         (boolean_default False [''export'', ''omitBackground''] (jget kvs ''omitBackground'')))
         (encoding_schema [''export'', ''encoding''] (jget kvs ''encoding'')))
         (margin_schema [''export'', ''margin''] (jget kvs ''margin'')))
         (boolean_default False [''export'', ''printBackground''] (jget kvs ''printBackground'')))
         (viewport_schema [''export'', ''viewport''] (jget kvs ''viewport''))))"

definition PdfRequestSchema :: "(string \<Rightarrow> bool) \<Rightarrow> PdfRequest schema" where
  "PdfRequestSchema valid_url body =
     z_refine (\<lambda>data. Inr (truthy_string (url data) \<or> truthy_string (html data)))
       (Custom [] ''Either url or html must be provided'')
       (z_object [] (\<lambda>kvs.
          ap (ap (ap (Parsed [] (Some (\<lambda>u h e. \<lparr>url = u, html = h, export = e\<rparr>)))
            (url_schema valid_url (jget kvs ''url'')))
            (html_schema (jget kvs ''html'')))
            (pdf_export_schema (jget kvs ''export''))) body)"

definition image_export_default :: json where
  "image_export_default =
     JObject [(''scale'', JNumber 1), (''type'', JString ''png''), (''quality'', JNumber 100),
       (''fullPage'', JBool True), (''omitBackground'', JBool False),
       (''encoding'', JString ''binary''), (''maxFileSize'', JNumber (4 * 1024 * 1024))]"

definition image_export_schema :: "image_export schema" where
  "image_export_schema =
     z_default image_export_default (z_object [''export''] (\<lambda>kvs.
       ap (ap (ap (ap (ap (ap (ap (ap (ap (Parsed [] (Some (\<lambda>s t q f c ob en mx v.
             \<lparr>scale = s, type = t, quality = q, fullPage = f, clip = c, omitBackground = ob,
              encoding = en, viewport = v, maxFileSize = mx\<rparr>)))
         (scale_schema [''export'', ''scale''] (jget kvs ''scale'')))
         (type_schema [''export'', ''type''] (jget kvs ''type'')))
         (quality_schema [''export'', ''quality''] (jget kvs ''quality'')))
         (boolean_default True [''export'', ''fullPage''] (jget kvs ''fullPage'')))
         (clip_schema [''export'', ''clip''] (jget kvs ''clip'')))
         (boolean_default False [''export'', ''omitBackground''] (jget kvs ''omitBackground'')))
         (encoding_schema [''export'', ''encoding''] (jget kvs ''encoding'')))
         (maxFileSize_schema [''export'', ''maxFileSize''] (jget kvs ''maxFileSize'')))
         (viewport_schema [''export'', ''viewport''] (jget kvs ''viewport''))))"

definition ImageRequestSchema :: "(string \<Rightarrow> bool) \<Rightarrow> ImageRequest schema" where
  "ImageRequestSchema valid_url body =
     z_refine (\<lambda>data. Inr (truthy_string (url data) \<or> truthy_string (html data)))
       (Custom [] ''Either url or html must be provided'')
       (z_object [] (\<lambda>kvs.
          ap (ap (ap (Parsed [] (Some (\<lambda>u h e. \<lparr>url = u, html = h, export = e\<rparr>)))
            (url_schema valid_url (jget kvs ''url'')))
            (html_schema (jget kvs ''html'')))
            (image_export_schema (jget kvs ''export''))) body)"



section \<open>The browser\<close>

text \<open>
  One request works on one page. The browser is external: \<open>puppeteer\<close> answers each call
  on the page, given the calls made before it, with the exception it throws or with the
  bytes it returns (\<open>[]\<close> for a call that returns nothing). The state records whether
  \<^verbatim>\<open>launchBrowser\<close> has run, how many pages are open, and the calls made so far.
\<close>

datatype page_call =
    NewPage
  | SetViewport viewport_size
  | Goto string
  | SetContent string
  | PrintPdf pdf_export
  | Screenshot image_type "number option" bool "clip_rect option" bool encoding_kind
  | Close

type_synonym puppeteer = "page_call list \<Rightarrow> page_call \<Rightarrow> string + bytes"

record browser =
  launched :: bool
  open_pages :: nat
  calls :: "page_call list"

fun pages_after :: "page_call \<Rightarrow> string + bytes \<Rightarrow> nat \<Rightarrow> nat" where
  "pages_after NewPage (Inr _) n = n + 1"
| "pages_after Close (Inr _) n = n - 1"
| "pages_after _ _ n = n"

definition page_op :: "puppeteer \<Rightarrow> page_call \<Rightarrow> browser \<Rightarrow> (string + bytes) \<times> browser" where
  "page_op pp c st =
     (pp (calls st) c,
      st\<lparr>open_pages := pages_after c (pp (calls st) c) (open_pages st),
         calls := calls st @ [c]\<rparr>)"


section \<open>The orchestrator: loading a page, \<^verbatim>\<open>generatePdf\<close>\<close>

fun load_html :: "puppeteer \<Rightarrow> string option \<Rightarrow> browser \<Rightarrow> (string + bytes) \<times> browser" where
  "load_html pp (Some h) st =
     (if h \<noteq> [] then page_op pp (SetContent h) st
      else (Inl ''url or html is required'', st))"
| "load_html pp None st = (Inl ''url or html is required'', st)"

fun load_content ::
  "puppeteer \<Rightarrow> string option \<Rightarrow> string option \<Rightarrow> browser \<Rightarrow> (string + bytes) \<times> browser" where
  "load_content pp (Some u) h st =
     (if u \<noteq> [] then page_op pp (Goto u) st else load_html pp h st)"
| "load_content pp None h st = load_html pp h st"

text \<open>
  The first lines of \<^verbatim>\<open>generatePdf\<close> and of \<^verbatim>\<open>generateImage\<close> are the same: take the
  browser, open a page, set the viewport when one is given, load the url or else the html.
\<close>

definition load_page ::
  "puppeteer \<Rightarrow> ('x export_options_scheme) request \<Rightarrow> browser \<Rightarrow> (string + bytes) \<times> browser" where
  "load_page pp body st =
     (if \<not> launched st then (Inl ''Browser not launched'', st)
      else
        case page_op pp NewPage st of
          (Inl e, st1) \<Rightarrow> (Inl e, st1)
        | (Inr _, st1) \<Rightarrow>
            (case (case viewport (export body) of
                     None \<Rightarrow> (Inr [], st1)
                   | Some vp \<Rightarrow> page_op pp (SetViewport vp) st1) of
               (Inl e, st2) \<Rightarrow> (Inl e, st2)
             | (Inr _, st2) \<Rightarrow> load_content pp (url body) (html body) st2))"

text \<open>\<^verbatim>\<open>page.close()\<close> is not awaited here: an exception of it is never seen.\<close>

definition generatePdf :: "puppeteer \<Rightarrow> PdfRequest \<Rightarrow> browser \<Rightarrow> (string + bytes) \<times> browser" where
  "generatePdf pp body st =
     (case load_page pp body st of
        (Inl e, st1) \<Rightarrow> (Inl e, st1)
      | (Inr _, st1) \<Rightarrow>
          (case page_op pp (PrintPdf (export body)) st1 of
             (Inl e, st2) \<Rightarrow> (Inl e, st2)
           | (Inr res, st2) \<Rightarrow> (Inr res, snd (page_op pp Close st2))))"


section \<open>The codec, the fitter \<^verbatim>\<open>compressImage\<close>, and \<^verbatim>\<open>generateImage\<close>\<close>

text \<open>
  The codec is external. \<open>encode\<close> is \<^verbatim>\<open>sharp(buf).<format>({quality}).toBuffer()\<close>,
  \<open>resize_encode\<close> is \<^verbatim>\<open>sharp(buf).resize(w, h).<format>({quality}).toBuffer()\<close>, and
  \<open>metadata\<close> gives the width and the height when it knows them. Each may throw. The
  calls made are recorded in order.
\<close>

record sharp =
  encode :: "bytes \<Rightarrow> image_type \<Rightarrow> number \<Rightarrow> string + bytes"
  resize_encode :: "bytes \<Rightarrow> int \<Rightarrow> int \<Rightarrow> image_type \<Rightarrow> number \<Rightarrow> string + bytes"
  metadata :: "bytes \<Rightarrow> string + (nat option \<times> nat option)"

datatype sharp_call =
    ToBuffer image_type number
  | ResizeToBuffer int int image_type number
  | Metadata

datatype loop_exit = Return bytes | Throw string | Fallthrough

text \<open>The first \<^verbatim>\<open>while\<close> loop; the result is \<open>None\<close> when it never ends.\<close>

partial_function (option) quality_loop ::
  "sharp \<Rightarrow> bytes \<Rightarrow> image_type \<Rightarrow> number \<Rightarrow> number \<Rightarrow> sharp_call list
     \<Rightarrow> (loop_exit \<times> sharp_call list) option" where
  "quality_loop lib imageBuffer targetFormat maxBytes currentQuality tr =
     (if 10 \<le> currentQuality then
        (case encode lib imageBuffer targetFormat currentQuality of
           Inl e \<Rightarrow> Some (Throw e, tr @ [ToBuffer targetFormat currentQuality])
         | Inr result \<Rightarrow>
             if of_nat (length result) \<le> maxBytes
             then Some (Return result, tr @ [ToBuffer targetFormat currentQuality])
             else quality_loop lib imageBuffer targetFormat maxBytes
                    (js_sub currentQuality 10) (tr @ [ToBuffer targetFormat currentQuality]))
      else Some (Fallthrough, tr))"

declare quality_loop.simps [code]

text \<open>The second \<^verbatim>\<open>while\<close> loop.\<close>

partial_function (option) scale_loop ::
  "sharp \<Rightarrow> bytes \<Rightarrow> image_type \<Rightarrow> number \<Rightarrow> nat \<Rightarrow> nat \<Rightarrow> number \<Rightarrow> sharp_call list
     \<Rightarrow> (loop_exit \<times> sharp_call list) option" where
  "scale_loop lib imageBuffer targetFormat maxBytes width height s tr =
     (if js_lit (3 / 10) \<le> s then
        (case resize_encode lib imageBuffer
                (js_floor (js_mul (of_nat width) s)) (js_floor (js_mul (of_nat height) s))
                targetFormat 70 of
           Inl e \<Rightarrow>
             Some (Throw e, tr @ [ResizeToBuffer (js_floor (js_mul (of_nat width) s))
                                    (js_floor (js_mul (of_nat height) s)) targetFormat 70])
         | Inr result \<Rightarrow>
             if of_nat (length result) \<le> maxBytes
             then Some (Return result,
                    tr @ [ResizeToBuffer (js_floor (js_mul (of_nat width) s))
                            (js_floor (js_mul (of_nat height) s)) targetFormat 70])
             else scale_loop lib imageBuffer targetFormat maxBytes width height
                    (js_sub s (js_lit (1 / 10)))
                    (tr @ [ResizeToBuffer (js_floor (js_mul (of_nat width) s))
                             (js_floor (js_mul (of_nat height) s)) targetFormat 70]))
      else Some (Fallthrough, tr))"

declare scale_loop.simps [code]

text \<open>\<^verbatim>\<open>metadata.width && metadata.height\<close>: both known and not zero.\<close>

fun known_size :: "nat option \<times> nat option \<Rightarrow> (nat \<times> nat) option" where
  "known_size (Some w, Some h) = (if w \<noteq> 0 \<and> h \<noteq> 0 then Some (w, h) else None)"
| "known_size _ = None"

text \<open>From the metadata read to the end of \<^verbatim>\<open>compressImage\<close>.\<close>

definition resize_phase ::
  "sharp \<Rightarrow> bytes \<Rightarrow> image_type \<Rightarrow> number \<Rightarrow> sharp_call list
     \<Rightarrow> ((string + bytes) \<times> sharp_call list) option" where
  "resize_phase lib imageBuffer targetFormat maxBytes tr =
     (case metadata lib imageBuffer of
        Inl e \<Rightarrow> Some (Inl e, tr @ [Metadata])
      | Inr md \<Rightarrow>
          (case known_size md of
             None \<Rightarrow> Some (Inr imageBuffer, tr @ [Metadata])
           | Some (w, h) \<Rightarrow>
               (case scale_loop lib imageBuffer targetFormat maxBytes w h
                       (js_lit (9 / 10)) (tr @ [Metadata]) of
                  None \<Rightarrow> None
                | Some (Return result, tr') \<Rightarrow> Some (Inr result, tr')
                | Some (Throw e, tr') \<Rightarrow> Some (Inl e, tr')
                | Some (Fallthrough, tr') \<Rightarrow> Some (Inr imageBuffer, tr'))))"

text \<open>\<^verbatim>\<open>quality || 100\<close>: an absent quality and the quality 0 both give 100.\<close>

fun initial_quality :: "number option \<Rightarrow> number" where
  "initial_quality None = 100"
| "initial_quality (Some q) = (if q = 0 then 100 else q)"

definition compressImage ::
  "sharp \<Rightarrow> bytes \<Rightarrow> image_type \<Rightarrow> number \<Rightarrow> number option
     \<Rightarrow> ((string + bytes) \<times> sharp_call list) option" where
  "compressImage lib imageBuffer targetFormat maxBytes q =
     (case quality_loop lib imageBuffer targetFormat maxBytes (initial_quality q) [] of
        None \<Rightarrow> None
      | Some (Return result, tr) \<Rightarrow> Some (Inr result, tr)
      | Some (Throw e, tr) \<Rightarrow> Some (Inl e, tr)
      | Some (Fallthrough, tr) \<Rightarrow> resize_phase lib imageBuffer targetFormat maxBytes tr)"

definition screenshot_call :: "image_export \<Rightarrow> page_call" where
  "screenshot_call e =
     Screenshot (type e) (if type e = Jpeg then Some (quality e) else None)
       (fullPage e) (clip e) (omitBackground e) (encoding e)"

definition generateImage ::
  "sharp \<Rightarrow> puppeteer \<Rightarrow> ImageRequest \<Rightarrow> browser
     \<Rightarrow> ((string + bytes) \<times> browser \<times> sharp_call list) option" where
  "generateImage lib pp body st =
     (case load_page pp body st of
        (Inl e, st1) \<Rightarrow> Some (Inl e, st1, [])
      | (Inr _, st1) \<Rightarrow>
          (case page_op pp (screenshot_call (export body)) st1 of
             (Inl e, st2) \<Rightarrow> Some (Inl e, st2, [])
           | (Inr res, st2) \<Rightarrow>
               (case page_op pp Close st2 of
                  (Inl e, st3) \<Rightarrow> Some (Inl e, st3, [])
                | (Inr _, st3) \<Rightarrow>
                    if maxFileSize (export body) < of_nat (length res)
                    then map_option (\<lambda>(r, tr). (r, st3, tr))
                           (compressImage lib res (type (export body))
                              (maxFileSize (export body)) (Some (quality (export body))))
                    else Some (Inr res, st3, []))))"


section \<open>The routes\<close>

text \<open>
  \<^verbatim>\<open>zValidator\<close> parses the body before the handler runs; after a failed parse (and
  after an exception that escaped the parser) the handler does not run. The handler turns
  an exception of the orchestrator into the error response with status 400.
\<close>

datatype response =
    Body string bytes
  | Error_400 string
  | Validation_failed rejection

fun type_name :: "image_type \<Rightarrow> string" where
  "type_name Jpeg = ''jpeg''"
| "type_name Png = ''png''"
| "type_name Webp = ''webp''"

definition post_pdf ::
  "(string \<Rightarrow> bool) \<Rightarrow> puppeteer \<Rightarrow> json \<Rightarrow> browser \<Rightarrow> response \<times> browser" where
  "post_pdf valid_url pp body st =
     (case safeParse (PdfRequestSchema valid_url (Some body)) of
        Inl rej \<Rightarrow> (Validation_failed rej, st)
      | Inr data \<Rightarrow>
          (case generatePdf pp data st of
             (Inr pdfBuffer, st') \<Rightarrow> (Body ''application/pdf'' pdfBuffer, st')
           | (Inl errorMessage, st') \<Rightarrow> (Error_400 errorMessage, st')))"

definition post_image ::
  "(string \<Rightarrow> bool) \<Rightarrow> sharp \<Rightarrow> puppeteer \<Rightarrow> json \<Rightarrow> browser
     \<Rightarrow> (response \<times> browser \<times> sharp_call list) option" where
  "post_image valid_url lib pp body st =
     (case safeParse (ImageRequestSchema valid_url (Some body)) of
        Inl rej \<Rightarrow> Some (Validation_failed rej, st, [])
      | Inr data \<Rightarrow>
          (case generateImage lib pp data st of
             None \<Rightarrow> None
           | Some (Inr imageBuffer, st', tr) \<Rightarrow>
               Some (Body (''image/'' @ type_name (type (export data))) imageBuffer, st', tr)
           | Some (Inl errorMessage, st', tr) \<Rightarrow> Some (Error_400 errorMessage, st', tr)))"


section \<open>The ladders as the specification words them\<close>

text \<open>
  Try the candidates in order; return the first encoding that fits the budget; an
  exception of the codec ends the attempt; with no candidate left, fall through.
\<close>

fun try_ladder ::
  "('c \<Rightarrow> string + bytes) \<Rightarrow> ('c \<Rightarrow> sharp_call) \<Rightarrow> number \<Rightarrow> 'c list \<Rightarrow> sharp_call list
     \<Rightarrow> loop_exit \<times> sharp_call list" where
  "try_ladder enc call maxBytes [] tr = (Fallthrough, tr)"
| "try_ladder enc call maxBytes (c # cs) tr =
     (case enc c of
        Inl e \<Rightarrow> (Throw e, tr @ [call c])
      | Inr result \<Rightarrow>
          if of_nat (length result) \<le> maxBytes then (Return result, tr @ [call c])
          else try_ladder enc call maxBytes cs (tr @ [call c]))"

text \<open>The qualities \<open>q, q - 10, q - 20, \<dots>\<close> that are at least 10.\<close>

definition quality_steps :: "number \<Rightarrow> number list" where
  "quality_steps q = map (\<lambda>i. q - 10 * of_nat i) [0..<nat \<lfloor>q / 10\<rfloor>]"

text \<open>The sizes \<open>floor (width * s)\<close>, \<open>floor (height * s)\<close> for \<open>s = 0.9, 0.8, \<dots>, 0.3\<close>.\<close>

definition scale_steps :: "nat \<Rightarrow> nat \<Rightarrow> (int \<times> int) list" where
  "scale_steps width height =
     map (\<lambda>k. (\<lfloor>of_nat width * (k / 10 :: rat)\<rfloor>, \<lfloor>of_nat height * (k / 10 :: rat)\<rfloor>))
       [9, 8, 7, 6, 5, 4, 3]"

text \<open>Counting the codec calls of a run.\<close>

fun is_quality_encode :: "sharp_call \<Rightarrow> bool" where
  "is_quality_encode (ToBuffer _ _) = True"
| "is_quality_encode _ = False"

fun is_resize_encode :: "sharp_call \<Rightarrow> bool" where
  "is_resize_encode (ResizeToBuffer _ _ _ _) = True"
| "is_resize_encode _ = False"

definition quality_encodes :: "sharp_call list \<Rightarrow> nat" where
  "quality_encodes tr = length (filter is_quality_encode tr)"

definition resize_encodes :: "sharp_call list \<Rightarrow> nat" where
  "resize_encodes tr = length (filter is_resize_encode tr)"

definition metadata_reads :: "sharp_call list \<Rightarrow> nat" where
  "metadata_reads tr = count_list tr Metadata"

text \<open>
  A codec call that gives the fitter nothing to return: an encoding that succeeds and is
  larger than the budget, or a metadata read that succeeds.
\<close>

fun fruitless :: "sharp \<Rightarrow> bytes \<Rightarrow> number \<Rightarrow> sharp_call \<Rightarrow> bool" where
  "fruitless lib buf mb (ToBuffer f v) =
     (case encode lib buf f v of Inl e \<Rightarrow> False | Inr r \<Rightarrow> mb < of_nat (length r))"
| "fruitless lib buf mb (ResizeToBuffer nw nh f v) =
     (case resize_encode lib buf nw nh f v of Inl e \<Rightarrow> False | Inr r \<Rightarrow> mb < of_nat (length r))"
| "fruitless lib buf mb Metadata =
     (case metadata lib buf of Inl e \<Rightarrow> False | Inr md \<Rightarrow> True)"

text \<open>The calls a run added to the page, and how many of them close it.\<close>

definition new_calls :: "browser \<Rightarrow> browser \<Rightarrow> page_call list" where
  "new_calls st st' = drop (length (calls st)) (calls st')"


text \<open>
  The page calls of a request that is captured from its url: open the page, set the viewport
  when one is given, navigate to the url, capture, close.
\<close>

definition url_capture :: "viewport_size option \<Rightarrow> string \<Rightarrow> page_call \<Rightarrow> page_call list" where
  "url_capture vp u capture =
     NewPage # (case vp of None \<Rightarrow> [] | Some v \<Rightarrow> [SetViewport v]) @ [Goto u, capture, Close]"



text \<open>Whether a request body is an object with the given key.\<close>

definition has_key :: "json \<Rightarrow> string \<Rightarrow> bool" where
  "has_key body k = (case body of JObject kvs \<Rightarrow> jget kvs k \<noteq> None | _ \<Rightarrow> False)"


section \<open>Concrete collaborators for the examples\<close>

text \<open>A codec whose every encoding has two bytes, for an image of 100 by 100 pixels.\<close>

definition oversize_codec :: sharp where
  "oversize_codec =
     \<lparr>encode = (\<lambda>buf fmt v. Inr [0, 0]),
      resize_encode = (\<lambda>buf nw nh fmt v. Inr [0, 0]),
      metadata = (\<lambda>buf. Inr (Some 100, Some 100))\<rparr>"


text \<open>A codec whose every encoding fits: one byte from \<open>encode\<close>, another from \<open>resize_encode\<close>.\<close>

definition fitting_codec :: sharp where
  "fitting_codec =
     \<lparr>encode = (\<lambda>buf fmt v. Inr [1]),
      resize_encode = (\<lambda>buf nw nh fmt v. Inr [2]),
      metadata = (\<lambda>buf. Inr (Some 100, Some 100))\<rparr>"


text \<open>
  A codec whose encodings shrink with the quality and with the width: \<open>quality / 10\<close>
  bytes from \<open>encode\<close>, \<open>width / 10\<close> bytes from \<open>resize_encode\<close>.
\<close>

definition graded_codec :: sharp where
  "graded_codec =
     \<lparr>encode = (\<lambda>buf fmt v. Inr (replicate (nat \<lfloor>v / 10\<rfloor>) 0)),
      resize_encode = (\<lambda>buf nw nh fmt v. Inr (replicate (nat (nw div 10)) 0)),
      metadata = (\<lambda>buf. Inr (Some 100, Some 100))\<rparr>"


text \<open>
  A codec for an image of one pixel: every encoding has two bytes, and a resize to a width
  or a height that is not positive throws, as \<^verbatim>\<open>sharp(buf).resize(0, 0)\<close> does.
\<close>

definition one_pixel_codec :: sharp where
  "one_pixel_codec =
     \<lparr>encode = (\<lambda>buf fmt v. Inr [0, 0]),
      resize_encode = (\<lambda>buf nw nh fmt v.
         if nw \<le> 0 then Inl ''Expected positive integer for width but received 0 of type number''
         else if nh \<le> 0 then Inl ''Expected positive integer for height but received 0 of type number''
         else Inr [0, 0]),
      metadata = (\<lambda>buf. Inr (Some 1, Some 1))\<rparr>"


text \<open>
  A launched browser with no page open; a browser whose every call succeeds; one whose
  navigation fails; and a request of each kind with the default options.
\<close>

definition idle_browser :: browser where
  "idle_browser = \<lparr>launched = True, open_pages = 0, calls = []\<rparr>"

definition working_pages :: puppeteer where
  "working_pages tr c = Inr [1, 2, 3]"


definition example_pdf_export :: pdf_export where
  "example_pdf_export =
     \<lparr>scale = 1, type = Png, quality = 100, fullPage = True, clip = None,
      omitBackground = False, encoding = Binary, viewport = None,
      margin = \<lparr>top = ''0'', right = ''0'', bottom = ''0'', left = ''0''\<rparr>,
      printBackground = False\<rparr>"

definition example_image_export :: image_export where
  "example_image_export =
     \<lparr>scale = 1, type = Png, quality = 100, fullPage = True, clip = None,
      omitBackground = False, encoding = Binary, viewport = None,
      maxFileSize = 4 * 1024 * 1024\<rparr>"

definition example_pdf_request :: PdfRequest where
  "example_pdf_request =
     \<lparr>url = Some ''https://example.com'', html = Some ''<h1>hi</h1>'',
      export = example_pdf_export\<rparr>"

definition example_image_request :: ImageRequest where
  "example_image_request =
     \<lparr>url = Some ''https://example.com'', html = Some ''<h1>hi</h1>'',
      export = example_image_export\<rparr>"


text \<open>A stand-in for the URL parser, and three request bodies.\<close>

definition sample_valid_url :: "string \<Rightarrow> bool" where
  "sample_valid_url s = (take 8 s = ''https://'' \<and> 8 < length s)"

definition url_only_body :: json where
  "url_only_body = JObject [(''url'', JString ''https://example.com'')]"

definition quality_zero_body :: json where
  "quality_zero_body =
     JObject [(''url'', JString ''https://example.com''),
              (''export'', JObject [(''quality'', JNumber 0)])]"

definition scale_three_body :: json where
  "scale_three_body =
     JObject [(''url'', JString ''https://example.com''),
              (''export'', JObject [(''scale'', JNumber 3)])]"

text \<open>
  A request for a screenshot of one pixel, clipped at the corner of the page, with a budget
  of one byte; and its body.
\<close>

definition one_pixel_request :: ImageRequest where
  "one_pixel_request =
     \<lparr>url = Some ''https://example.com'', html = None,
      export = example_image_export
        \<lparr>fullPage := False,
         clip := Some \<lparr>clip_x = 0, clip_y = 0, clip_width = 1, clip_height = 1\<rparr>,
         maxFileSize := 1\<rparr>\<rparr>"

definition one_pixel_body :: json where
  "one_pixel_body =
     JObject [(''url'', JString ''https://example.com''),
              (''export'', JObject
                 [(''fullPage'', JBool False),
                  (''clip'', JObject [(''x'', JNumber 0), (''y'', JNumber 0),
                                      (''width'', JNumber 1), (''height'', JNumber 1)]),
                  (''maxFileSize'', JNumber 1)])]"


section \<open>Rounding: the exponent, and rounding between two doubles\<close>

lemma bitlen_rat_bounds:
  assumes "0 < a"
  shows "2 powi (bitlen a - 1) \<le> (of_int a :: rat)" and "(of_int a :: rat) < 2 powi (bitlen a)"
proof -
  have ge1: "1 \<le> bitlen a" using assms by (simp add: bitlen_alt_def)
  have lo: "2 ^ nat (bitlen a - 1) \<le> a" and hi: "a < 2 ^ nat (bitlen a)"
    using bitlen_bounds[OF assms] by auto
  have "(of_int (2 ^ nat (bitlen a - 1)) :: rat) \<le> of_int a"
    using lo by (simp only: of_int_le_iff)
  then show "2 powi (bitlen a - 1) \<le> (of_int a :: rat)"
    using ge1 by (simp add: power_int_nonneg_exp)
  have "(of_int a :: rat) < of_int (2 ^ nat (bitlen a))"
    using hi by (simp only: of_int_less_iff)
  then show "(of_int a :: rat) < 2 powi (bitlen a)"
    using ge1 by (simp add: power_int_nonneg_exp)
qed

lemma ilog2_bounds:
  assumes "0 < x"
  shows "2 powi (ilog2 x) \<le> x" and "x < 2 powi (ilog2 x + 1)"
proof -
  obtain a b where q: "quotient_of x = (a, b)" by (cases "quotient_of x")
  have b: "0 < b" using quotient_of_denom_pos[OF q] .
  have x: "x = of_int a / of_int b" using quotient_of_div[OF q] .
  have a: "0 < a" using assms b x by (simp add: zero_less_divide_iff)
  define la lb where "la = bitlen a" and "lb = bitlen b"
  have la: "2 powi (la - 1) \<le> (of_int a :: rat)" "(of_int a :: rat) < 2 powi la"
    using bitlen_rat_bounds[OF a] by (simp_all add: la_def)
  have lb: "2 powi (lb - 1) \<le> (of_int b :: rat)" "(of_int b :: rat) < 2 powi lb"
    using bitlen_rat_bounds[OF b] by (simp_all add: lb_def)
  have bpos: "(0::rat) < of_int b" using b by simp
  have up: "x < 2 powi (la - lb + 1)"
  proof -
    have "(2 powi la :: rat) = 2 powi (la - lb + 1) * 2 powi (lb - 1)"
      by (simp flip: power_int_add)
    also have "\<dots> \<le> 2 powi (la - lb + 1) * of_int b"
      using lb(1) by (intro mult_left_mono) simp_all
    finally have "of_int a < (2 powi (la - lb + 1) :: rat) * of_int b"
      using la(2) by simp
    then show ?thesis
      using bpos by (simp add: x pos_divide_less_eq)
  qed
  have low: "2 powi (la - lb - 1) \<le> x"
  proof -
    have "(2 powi (la - lb - 1) :: rat) * of_int b \<le> 2 powi (la - lb - 1) * 2 powi lb"
      using lb(2) by (intro mult_left_mono) simp_all
    also have "\<dots> = 2 powi (la - 1)"
      by (simp flip: power_int_add)
    finally have "(2 powi (la - lb - 1) :: rat) * of_int b \<le> of_int a"
      using la(1) by simp
    then show ?thesis
      using bpos by (simp add: x pos_le_divide_eq)
  qed
  have il: "ilog2 x = (if 2 powi (la - lb) \<le> x then la - lb else la - lb - 1)"
    by (simp add: ilog2_def q la_def lb_def)
  show "2 powi (ilog2 x) \<le> x" using low by (simp add: il)
  show "x < 2 powi (ilog2 x + 1)" using up by (auto simp add: il)
qed


lemma pow2_add: "(2::rat) powi a * 2 powi b = 2 powi (a + b)"
  by (simp add: power_int_add)

lemma round_half_even_ge: "of_int c \<le> y \<Longrightarrow> c \<le> round_half_even y"
proof -
  assume "of_int c \<le> y"
  then have "c \<le> \<lfloor>y\<rfloor>" by (simp add: le_floor_iff)
  then show ?thesis by (simp add: round_half_even_def Let_def)
qed

lemma round_half_even_le: "y \<le> of_int c \<Longrightarrow> round_half_even y \<le> c"
proof -
  assume y: "y \<le> of_int c"
  show ?thesis
  proof (cases "y = of_int \<lfloor>y\<rfloor>")
    case True
    then have "of_int \<lfloor>y\<rfloor> \<le> (of_int c :: rat)" using y by simp
    then have "\<lfloor>y\<rfloor> \<le> c" by (simp only: of_int_le_iff)
    moreover have "round_half_even y = \<lfloor>y\<rfloor>"
      using True by (simp add: round_half_even_def Let_def)
    ultimately show ?thesis by simp
  next
    case False
    then have "of_int \<lfloor>y\<rfloor> \<noteq> y" by auto
    then have "of_int \<lfloor>y\<rfloor> < y" by (rule le_neq_trans[OF of_int_floor_le])
    then have "of_int \<lfloor>y\<rfloor> < (of_int c :: rat)" using y by simp
    then have "\<lfloor>y\<rfloor> < c" by (simp only: of_int_less_iff)
    then show ?thesis by (simp add: round_half_even_def Let_def)
  qed
qed

lemma rnd_pos:
  assumes "0 < x"
  shows "rnd x = of_int (round_half_even (x / 2 powi (ilog2 x - 52))) * 2 powi (ilog2 x - 52)"
  using assms by (simp add: rnd_def Let_def)

lemma scaled_bounds:
  assumes "0 < x"
  shows "2 ^ 52 \<le> x / 2 powi (ilog2 x - 52)" and "x / 2 powi (ilog2 x - 52) < 2 ^ 53"
proof -
  have p: "(0::rat) < 2 powi (ilog2 x - 52)" by simp
  have "(2 ^ 52 :: rat) * 2 powi (ilog2 x - 52) = 2 powi (ilog2 x)"
    using pow2_add[of 52 "ilog2 x - 52"] by simp
  then show "2 ^ 52 \<le> x / 2 powi (ilog2 x - 52)"
    using ilog2_bounds(1)[OF assms] p by (simp add: pos_le_divide_eq)
  have "(2 ^ 53 :: rat) * 2 powi (ilog2 x - 52) = 2 powi (ilog2 x + 1)"
    using pow2_add[of 53 "ilog2 x - 52"] by (simp add: add.commute)
  then show "x / 2 powi (ilog2 x - 52) < 2 ^ 53"
    using ilog2_bounds(2)[OF assms] p by (simp add: pos_divide_less_eq)
qed

lemma rnd_ge_pow:
  assumes "0 < x"
  shows "2 powi (ilog2 x) \<le> rnd x"
proof -
  have "(2 ^ 52 :: int) \<le> round_half_even (x / 2 powi (ilog2 x - 52))"
    using scaled_bounds(1)[OF assms] by (intro round_half_even_ge) simp
  then have "(of_int (2 ^ 52) :: rat) \<le> of_int (round_half_even (x / 2 powi (ilog2 x - 52)))"
    by (simp only: of_int_le_iff)
  then have "(of_int (2 ^ 52) :: rat) * 2 powi (ilog2 x - 52) \<le> rnd x"
    unfolding rnd_pos[OF assms] by (intro mult_right_mono) simp_all
  then show ?thesis using pow2_add[of 52 "ilog2 x - 52"] by simp
qed

lemma rnd_nonneg: "0 \<le> x \<Longrightarrow> 0 \<le> rnd x"
proof (cases "x = 0")
  case True then show ?thesis by (simp add: rnd_def)
next
  case False
  assume "0 \<le> x"
  with False have "0 < x" by simp
  from rnd_ge_pow[OF this] have "2 powi (ilog2 x) \<le> rnd x" .
  moreover have "(0::rat) < 2 powi (ilog2 x)" by simp
  ultimately show ?thesis by linarith
qed

lemma rnd_ge:
  assumes M: "0 \<le> M" "M \<le> 2 ^ 53" and le: "of_int M * 2 powi k \<le> x"
  shows "of_int M * 2 powi k \<le> rnd x"
proof (cases "M = 0")
  case True
  with le have "0 \<le> x" by simp
  then show ?thesis using True rnd_nonneg by simp
next
  case False
  with M have Mpos: "0 < M" by simp
  then have "(0::rat) < of_int M * 2 powi k" by simp
  with le have x: "0 < x" by simp
  define e where "e = ilog2 x - 52"
  define y where "y = x / 2 powi e"
  have r: "rnd x = of_int (round_half_even y) * 2 powi e"
    using rnd_pos[OF x] by (simp add: e_def y_def)
  show ?thesis
  proof (cases "e \<le> k")
    case True
    define c where "c = M * 2 ^ nat (k - e)"
    have c: "(of_int c :: rat) = of_int M * 2 powi (k - e)"
      using True by (simp add: c_def power_int_nonneg_exp)
    also have "\<dots> = of_int M * 2 powi k / 2 powi e"
      by (simp add: power_int_diff)
    also have "\<dots> \<le> y"
      unfolding y_def using le by (intro divide_right_mono) simp_all
    finally have "c \<le> round_half_even y" by (rule round_half_even_ge)
    then have "(of_int c :: rat) * 2 powi e \<le> of_int (round_half_even y) * 2 powi e"
      by (intro mult_right_mono) simp_all
    moreover have "(of_int c :: rat) * 2 powi e = of_int M * 2 powi k"
      using pow2_add[of "k - e" e] by (simp add: c mult.assoc)
    ultimately show ?thesis by (simp add: r)
  next
    case False
    then have ke: "k + 53 \<le> e + 52" by simp
    have "(of_int M :: rat) \<le> of_int (2 ^ 53)" using M(2) by (simp only: of_int_le_iff)
    then have "(of_int M :: rat) * 2 powi k \<le> 2 powi 53 * 2 powi k"
      by (intro mult_right_mono) simp_all
    also have "\<dots> = 2 powi (k + 53)" using pow2_add[of 53 k] by (simp add: add.commute)
    also have "\<dots> \<le> 2 powi (e + 52)" using ke by (intro power_int_increasing) simp_all
    also have "\<dots> \<le> rnd x" using rnd_ge_pow[OF x] by (simp add: e_def)
    finally show ?thesis .
  qed
qed

lemma rnd_le:
  assumes x0: "0 \<le> x" and M: "M < 2 ^ 53" and le: "x \<le> of_int M * 2 powi k"
  shows "rnd x \<le> of_int M * 2 powi k"
proof (cases "x = 0")
  case True
  with le show ?thesis by (simp add: rnd_def)
next
  case False
  with x0 have x: "0 < x" by simp
  define e where "e = ilog2 x - 52"
  define y where "y = x / 2 powi e"
  have r: "rnd x = of_int (round_half_even y) * 2 powi e"
    using rnd_pos[OF x] by (simp add: e_def y_def)
  show ?thesis
  proof (cases "e \<le> k")
    case True
    define c where "c = M * 2 ^ nat (k - e)"
    have c: "(of_int c :: rat) = of_int M * 2 powi (k - e)"
      using True by (simp add: c_def power_int_nonneg_exp)
    have "y \<le> of_int M * 2 powi k / 2 powi e"
      unfolding y_def using le by (intro divide_right_mono) simp_all
    also have "\<dots> = of_int M * 2 powi (k - e)"
      by (simp add: power_int_diff)
    also have "\<dots> = (of_int c :: rat)"
      by (simp only: c)
    finally have "round_half_even y \<le> c" by (rule round_half_even_le)
    then have "(of_int (round_half_even y) :: rat) * 2 powi e \<le> of_int c * 2 powi e"
      by (intro mult_right_mono) simp_all
    moreover have "(of_int c :: rat) * 2 powi e = of_int M * 2 powi k"
      using pow2_add[of "k - e" e] by (simp add: c mult.assoc)
    ultimately show ?thesis by (simp add: r)
  next
    case False
    then have ke: "k + 53 \<le> e + 52" by simp
    have "(of_int M :: rat) < of_int (2 ^ 53)" using M by (simp only: of_int_less_iff)
    then have "(of_int M :: rat) * 2 powi k < 2 powi 53 * 2 powi k"
      by (intro mult_strict_right_mono) simp_all
    also have "\<dots> = 2 powi (k + 53)" using pow2_add[of 53 k] by (simp add: add.commute)
    also have "\<dots> \<le> 2 powi (e + 52)" using ke by (intro power_int_increasing) simp_all
    also have "\<dots> \<le> x" using ilog2_bounds(1)[OF x] by (simp add: e_def)
    finally show ?thesis using le by simp
  qed
qed

lemma rnd_exact:
  assumes "0 \<le> M" "M < 2 ^ 53"
  shows "rnd (of_int M * 2 powi k) = of_int M * 2 powi k"
proof (rule antisym)
  show "rnd (of_int M * 2 powi k) \<le> of_int M * 2 powi k"
    using assms by (intro rnd_le) simp_all
  show "of_int M * 2 powi k \<le> rnd (of_int M * 2 powi k)"
    using assms by (intro rnd_ge) simp_all
qed


lemma floor_scaled:
  fixes w :: nat and k :: int
  assumes k: "0 \<le> k" "k \<le> 9"
    and s: "of_int k / 10 \<le> s" "s \<le> of_int k / 10 + 1 / 2 ^ 52"
    and w: "w < 2 ^ 47"
  shows "js_floor (js_mul (of_nat w) s) = \<lfloor>of_nat w * (of_int k / 10 :: rat)\<rfloor>"
proof -
  define n where "n = (int w * k) div 10"
  define r where "r = (int w * k) mod 10"
  have wk: "int w * k = 10 * n + r" and r: "0 \<le> r" "r \<le> 9"
    by (simp_all add: n_def r_def)
  have exact: "(of_nat w :: rat) * (of_int k / 10) = of_int n + of_int r / 10"
  proof -
    have "(of_int (int w * k) :: rat) = of_int (10 * n + r)" by (simp only: wk)
    then show ?thesis by (simp add: field_simps)
  qed
  have r10: "(0::rat) \<le> of_int r / 10" "(of_int r :: rat) / 10 \<le> 9 / 10"
    using r by simp_all
  have fl: "\<lfloor>of_nat w * (of_int k / 10 :: rat)\<rfloor> = n"
    unfolding exact using r10 by (intro floor_unique) simp_all
  have n0: "0 \<le> n" using k by (simp add: n_def pos_imp_zdiv_nonneg_iff)
  have "10 * n \<le> int w * 9"
  proof -
    have "10 * n \<le> int w * k" using wk r by simp
    also have "\<dots> \<le> int w * 9" using k by (intro mult_left_mono) simp_all
    finally show ?thesis .
  qed
  then have nw: "n \<le> int w" by simp
  have wlt: "int w < 2 ^ 47" using w by (simp flip: of_nat_less_iff)
  define x where "x = of_nat w * s"
  have s0: "0 \<le> s" using s(1) k(1) by (meson divide_nonneg_nonneg of_int_0_le_iff order_trans zero_le_numeral)
  have x0: "0 \<le> x" using s0 by (simp add: x_def)
  have lo: "of_int n * 2 powi 0 \<le> x"
  proof -
    have "of_int n \<le> (of_nat w :: rat) * (of_int k / 10)" unfolding exact using r10 by simp
    also have "\<dots> \<le> of_nat w * s" using s(1) by (intro mult_left_mono) simp_all
    finally show ?thesis by (simp add: x_def)
  qed
  have hi: "x \<le> of_int (16 * n + 15) * 2 powi (- 4)"
  proof -
    have "(of_nat w :: rat) \<le> 2 ^ 47" using wlt
      by (metis less_imp_le of_int_le_iff of_int_of_nat_eq of_int_numeral of_int_power)
    then have w52: "(of_nat w :: rat) * (1 / 2 ^ 52) \<le> 1 / 32" by simp
    have "x \<le> of_nat w * (of_int k / 10 + 1 / 2 ^ 52)"
      unfolding x_def using s(2) by (intro mult_left_mono) simp_all
    also have "\<dots> = of_int n + of_int r / 10 + of_nat w * (1 / 2 ^ 52)"
      by (simp only: distrib_left exact)
    also have "\<dots> \<le> of_int n + 9 / 10 + 1 / 32"
      using r10(2) w52 by linarith
    also have "\<dots> \<le> of_int (16 * n + 15) * 2 powi (- 4)"
      by (simp add: power_int_minus field_simps)
    finally show ?thesis .
  qed
  have n53: "n \<le> 2 ^ 53" "16 * n + 15 < 2 ^ 53" using nw wlt by simp_all
  have "of_int n * 2 powi 0 \<le> rnd x" using n0 n53(1) lo by (rule rnd_ge)
  then have a: "of_int n \<le> rnd x" by simp
  have "rnd x \<le> of_int (16 * n + 15) * 2 powi (- 4)" using x0 n53(2) hi by (rule rnd_le)
  also have "\<dots> < of_int n + 1" by (simp add: power_int_minus field_simps)
  finally have b: "rnd x < of_int n + 1" .
  have "\<lfloor>rnd x\<rfloor> = n" using a b by (intro floor_unique) simp_all
  then show ?thesis unfolding js_floor_def js_mul_def x_def[symmetric] fl .
qed


lemma sub10_exact:
  assumes d: "rnd q = q" and q: "10 \<le> q" "q \<le> 100"
  shows "js_sub q 10 = q - 10"
proof -
  have q0: "0 < q" using q by simp
  define e where "e = ilog2 q - 52"
  define m where "m = round_half_even (q / 2 powi e)"
  have qm: "q = of_int m * 2 powi e"
    using rnd_pos[OF q0] d by (simp add: e_def m_def)
  have e0: "e \<le> 0"
  proof (rule ccontr)
    assume "\<not> e \<le> 0"
    then have "(7::int) \<le> ilog2 q" by (simp add: e_def)
    then have "(2::rat) powi 7 \<le> 2 powi (ilog2 q)" by (intro power_int_increasing) simp_all
    also have "\<dots> \<le> q" using ilog2_bounds(1)[OF q0] .
    finally show False using q(2) by simp
  qed
  have m53: "m \<le> 2 ^ 53"
    unfolding m_def e_def using scaled_bounds(2)[OF q0] by (intro round_half_even_le) simp
  define t where "t = (10::int) * 2 ^ nat (- e)"
  have t0: "0 < t" by (simp add: t_def)
  have "(of_int t :: rat) * 2 powi e = 10 * (2 powi (- e) * 2 powi e)"
    using e0 by (simp add: t_def power_int_nonneg_exp)
  also have "\<dots> = 10" using pow2_add[of "- e" e] by simp
  finally have t10: "(of_int t :: rat) * 2 powi e = 10" .
  have eq: "q - 10 = of_int (m - t) * 2 powi e"
    using qm t10 by (simp add: algebra_simps)
  have "(0::rat) \<le> of_int (m - t) * 2 powi e" using q(1) eq by simp
  moreover have "\<not> (2::rat) powi e \<le> 0"
    using zero_less_power_int[of "2::rat" e] by (simp only: not_le)
  ultimately have "(0::rat) \<le> of_int (m - t)"
    by (simp only: zero_le_mult_iff) blast
  then have M0: "0 \<le> m - t" by (simp only: of_int_0_le_iff)
  have M53: "m - t < 2 ^ 53" using m53 t0 by simp
  show ?thesis
    unfolding js_sub_def eq using M0 M53 by (rule rnd_exact)
qed



section \<open>The quality loop\<close>

lemma quality_loop_exit:
  "\<not> 10 \<le> q \<Longrightarrow> quality_loop lib buf fmt mb q tr = Some (Fallthrough, tr)"
  by (subst quality_loop.simps) simp

lemma quality_loop_step:
  "10 \<le> q \<Longrightarrow> quality_loop lib buf fmt mb q tr =
     (case encode lib buf fmt q of
        Inl e \<Rightarrow> Some (Throw e, tr @ [ToBuffer fmt q])
      | Inr result \<Rightarrow>
          if of_nat (length result) \<le> mb then Some (Return result, tr @ [ToBuffer fmt q])
          else quality_loop lib buf fmt mb (js_sub q 10) (tr @ [ToBuffer fmt q]))"
  by (subst quality_loop.simps) simp

lemma quality_steps_less: "q < 10 \<Longrightarrow> quality_steps q = []"
proof -
  assume "q < 10"
  then have "q / 10 < 1" by simp
  then have "\<lfloor>q / 10\<rfloor> < 1" by (simp add: floor_less_iff)
  then show ?thesis by (simp add: quality_steps_def)
qed

lemma quality_steps_ge:
  assumes "10 \<le> q"
  shows "quality_steps q = q # quality_steps (q - 10)"
proof -
  have fl: "\<lfloor>q / 10\<rfloor> = \<lfloor>(q - 10) / 10\<rfloor> + 1"
  proof -
    have "q / 10 = (q - 10) / 10 + 1" by (simp add: field_simps)
    then show ?thesis by (metis floor_add_int of_int_1)
  qed
  have nn: "0 \<le> \<lfloor>(q - 10) / 10\<rfloor>" using assms by simp
  have n: "nat \<lfloor>q / 10\<rfloor> = Suc (nat \<lfloor>(q - 10) / 10\<rfloor>)"
    using nn by (simp add: fl nat_add_distrib)
  show ?thesis
    unfolding quality_steps_def n upt_conv_Cons[OF zero_less_Suc] list.map
    by (simp add: map_Suc_upt[symmetric] map_map comp_def algebra_simps del: upt_Suc)
qed

lemma quality_loop_ladder:
  assumes "rnd q = q" "q \<le> 100"
  shows "quality_loop lib buf fmt mb q tr =
           Some (try_ladder (encode lib buf fmt) (ToBuffer fmt) mb (quality_steps q) tr)"
  using assms
proof (induction "nat \<lfloor>q / 10\<rfloor>" arbitrary: q tr)
  case 0
  then have "\<lfloor>q / 10\<rfloor> \<le> 0" by simp
  then have "q / 10 < 1" by (simp add: floor_le_iff)
  then have q: "q < 10" by simp
  then show ?case by (simp add: quality_loop_exit quality_steps_less)
next
  case (Suc n)
  then have "1 \<le> \<lfloor>q / 10\<rfloor>" by linarith
  then have "1 \<le> q / 10" by (simp add: le_floor_iff)
  then have q: "10 \<le> q" by simp
  have sub: "js_sub q 10 = q - 10" using Suc.prems q by (intro sub10_exact) simp_all
  have d': "rnd (q - 10) = q - 10" using sub by (simp add: js_sub_def)
  have "\<lfloor>q / 10\<rfloor> = \<lfloor>(q - 10) / 10\<rfloor> + 1"
  proof -
    have "q / 10 = (q - 10) / 10 + 1" by (simp add: field_simps)
    then show ?thesis by (metis floor_add_int of_int_1)
  qed
  then have n: "n = nat \<lfloor>(q - 10) / 10\<rfloor>" using Suc.hyps(2) by linarith
  have IH: "\<And>tr'. quality_loop lib buf fmt mb (q - 10) tr' =
      Some (try_ladder (encode lib buf fmt) (ToBuffer fmt) mb (quality_steps (q - 10)) tr')"
    using Suc.hyps(1)[OF n d'] Suc.prems(2) by simp
  show ?case
    by (simp add: quality_loop_step[OF q] quality_steps_ge[OF q] sub IH split: sum.splits)
qed

lemma quality_loop_bound:
  assumes "q \<le> 10 * of_nat n" "n \<le> 10"
  shows "\<exists>r tr'. quality_loop lib buf fmt mb q tr = Some (r, tr @ tr') \<and> length tr' \<le> n \<and>
           (\<forall>c \<in> set tr'. is_quality_encode c)"
  using assms
proof (induction n arbitrary: q tr)
  case 0
  then have "\<not> 10 \<le> q" by simp
  then show ?case by (simp add: quality_loop_exit)
next
  case (Suc n)
  show ?case
  proof (cases "10 \<le> q")
    case False
    then show ?thesis by (simp add: quality_loop_exit)
  next
    case True
    have "rnd (q - 10) \<le> of_int (10 * int n) * 2 powi 0"
    proof (rule rnd_le)
      show "0 \<le> q - 10" using True by simp
      show "10 * int n < 2 ^ 53" using Suc.prems(2) by simp
      show "q - 10 \<le> of_int (10 * int n) * 2 powi 0" using Suc.prems(1) by simp
    qed
    then have "js_sub q 10 \<le> 10 * of_nat n" by (simp add: js_sub_def)
    from Suc.IH[OF this, of "tr @ [ToBuffer fmt q]"] Suc.prems(2)
    obtain r tr' where rec: "quality_loop lib buf fmt mb (js_sub q 10) (tr @ [ToBuffer fmt q]) =
        Some (r, tr @ [ToBuffer fmt q] @ tr')" "length tr' \<le> n" "\<forall>c \<in> set tr'. is_quality_encode c"
      by auto
    show ?thesis
    proof (cases "encode lib buf fmt q")
      case (Inl e)
      then show ?thesis by (simp add: quality_loop_step[OF True])
    next
      case (Inr result)
      show ?thesis
      proof (cases "of_nat (length result) \<le> mb")
        case fits: True
        then show ?thesis by (simp add: quality_loop_step[OF True] Inr)
      next
        case False
        have "quality_loop lib buf fmt mb q tr = Some (r, tr @ ([ToBuffer fmt q] @ tr'))"
          using False rec(1) by (simp add: quality_loop_step[OF True] Inr)
        moreover have "length ([ToBuffer fmt q] @ tr') \<le> Suc n" using rec(2) by simp
        moreover have "\<forall>c \<in> set ([ToBuffer fmt q] @ tr'). is_quality_encode c"
          using rec(3) by simp
        ultimately show ?thesis by blast
      qed
    qed
  qed
qed




section \<open>The scale loop\<close>

lemma lit_09: "js_lit (9 / 10) = 8106479329266893 / 9007199254740992"
  by code_simp

lemma lit_01: "js_lit (1 / 10) = 3602879701896397 / 36028797018963968"
  by code_simp

lemma lit_03: "js_lit (3 / 10) = 5404319552844595 / 18014398509481984"
  by code_simp

lemma sub_1:
  "js_sub (8106479329266893 / 9007199254740992) (3602879701896397 / 36028797018963968) =
     3602879701896397 / 4503599627370496"
  by code_simp

lemma sub_2:
  "js_sub (3602879701896397 / 4503599627370496) (3602879701896397 / 36028797018963968) =
     6305039478318695 / 9007199254740992"
  by code_simp

lemma sub_3:
  "js_sub (6305039478318695 / 9007199254740992) (3602879701896397 / 36028797018963968) =
     1351079888211149 / 2251799813685248"
  by code_simp

lemma sub_4:
  "js_sub (1351079888211149 / 2251799813685248) (3602879701896397 / 36028797018963968) =
     4503599627370497 / 9007199254740992"
  by code_simp

lemma sub_5:
  "js_sub (4503599627370497 / 9007199254740992) (3602879701896397 / 36028797018963968) =
     1801439850948199 / 4503599627370496"
  by code_simp

lemma sub_6:
  "js_sub (1801439850948199 / 4503599627370496) (3602879701896397 / 36028797018963968) =
     2702159776422299 / 9007199254740992"
  by code_simp

lemma sub_7:
  "js_sub (2702159776422299 / 9007199254740992) (3602879701896397 / 36028797018963968) =
     7205759403792799 / 36028797018963968"
  by code_simp

lemma scale_loop_exit:
  "\<not> js_lit (3 / 10) \<le> s \<Longrightarrow> scale_loop lib buf fmt mb w h s tr = Some (Fallthrough, tr)"
  by (subst scale_loop.simps) simp

lemma scale_loop_step:
  assumes "js_lit (3 / 10) \<le> s"
    and "\<And>tr'. scale_loop lib buf fmt mb w h (js_sub s (js_lit (1 / 10))) tr' =
           Some (try_ladder (\<lambda>(nw, nh). resize_encode lib buf nw nh fmt 70)
                   (\<lambda>(nw, nh). ResizeToBuffer nw nh fmt 70) mb cs tr')"
  shows "scale_loop lib buf fmt mb w h s tr =
           Some (try_ladder (\<lambda>(nw, nh). resize_encode lib buf nw nh fmt 70)
                   (\<lambda>(nw, nh). ResizeToBuffer nw nh fmt 70) mb
                   ((js_floor (js_mul (of_nat w) s), js_floor (js_mul (of_nat h) s)) # cs) tr)"
  by (subst scale_loop.simps) (simp add: assms split: sum.splits)

text \<open>The sizes the loop computes, with the doubles its variable \<^verbatim>\<open>scale\<close> takes.\<close>

lemma scale_loop_doubles:
  "scale_loop lib buf fmt mb w h (js_lit (9 / 10)) tr =
     Some (try_ladder (\<lambda>(nw, nh). resize_encode lib buf nw nh fmt 70)
             (\<lambda>(nw, nh). ResizeToBuffer nw nh fmt 70) mb
             (map (\<lambda>s. (js_floor (js_mul (of_nat w) s), js_floor (js_mul (of_nat h) s)))
                [8106479329266893 / 9007199254740992, 3602879701896397 / 4503599627370496,
                 6305039478318695 / 9007199254740992, 1351079888211149 / 2251799813685248,
                 4503599627370497 / 9007199254740992, 1801439850948199 / 4503599627370496,
                 2702159776422299 / 9007199254740992]) tr)"
proof -
  let ?enc = "\<lambda>(nw, nh). resize_encode lib buf nw nh fmt 70"
  let ?call = "\<lambda>(nw, nh). ResizeToBuffer nw nh fmt 70"
  let ?g = "\<lambda>s. (js_floor (js_mul (of_nat w) s), js_floor (js_mul (of_nat h) s))"
  have e7: "scale_loop lib buf fmt mb w h (7205759403792799 / 36028797018963968) tr' =
      Some (try_ladder ?enc ?call mb [] tr')" for tr'
    by (simp add: scale_loop_exit lit_03)
  have e6: "scale_loop lib buf fmt mb w h (2702159776422299 / 9007199254740992) tr' =
      Some (try_ladder ?enc ?call mb (map ?g [2702159776422299 / 9007199254740992]) tr')" for tr'
    unfolding list.map by (rule scale_loop_step) (simp_all add: lit_03 lit_01 sub_7 e7)
  have e5: "scale_loop lib buf fmt mb w h (1801439850948199 / 4503599627370496) tr' =
      Some (try_ladder ?enc ?call mb (map ?g [1801439850948199 / 4503599627370496,
        2702159776422299 / 9007199254740992]) tr')" for tr'
    unfolding list.map by (rule scale_loop_step) (simp_all add: lit_03 lit_01 sub_6 e6)
  have e4: "scale_loop lib buf fmt mb w h (4503599627370497 / 9007199254740992) tr' =
      Some (try_ladder ?enc ?call mb (map ?g [4503599627370497 / 9007199254740992,
        1801439850948199 / 4503599627370496, 2702159776422299 / 9007199254740992]) tr')" for tr'
    unfolding list.map by (rule scale_loop_step) (simp_all add: lit_03 lit_01 sub_5 e5)
  have e3: "scale_loop lib buf fmt mb w h (1351079888211149 / 2251799813685248) tr' =
      Some (try_ladder ?enc ?call mb (map ?g [1351079888211149 / 2251799813685248,
        4503599627370497 / 9007199254740992,
        1801439850948199 / 4503599627370496, 2702159776422299 / 9007199254740992]) tr')" for tr'
    unfolding list.map by (rule scale_loop_step) (simp_all add: lit_03 lit_01 sub_4 e4)
  have e2: "scale_loop lib buf fmt mb w h (6305039478318695 / 9007199254740992) tr' =
      Some (try_ladder ?enc ?call mb (map ?g [6305039478318695 / 9007199254740992,
        1351079888211149 / 2251799813685248, 4503599627370497 / 9007199254740992,
        1801439850948199 / 4503599627370496, 2702159776422299 / 9007199254740992]) tr')" for tr'
    unfolding list.map by (rule scale_loop_step) (simp_all add: lit_03 lit_01 sub_3 e3)
  have e1: "scale_loop lib buf fmt mb w h (3602879701896397 / 4503599627370496) tr' =
      Some (try_ladder ?enc ?call mb (map ?g [3602879701896397 / 4503599627370496,
        6305039478318695 / 9007199254740992,
        1351079888211149 / 2251799813685248, 4503599627370497 / 9007199254740992,
        1801439850948199 / 4503599627370496, 2702159776422299 / 9007199254740992]) tr')" for tr'
    unfolding list.map by (rule scale_loop_step) (simp_all add: lit_03 lit_01 sub_2 e2)
  show ?thesis
    unfolding list.map lit_09 by (rule scale_loop_step) (simp_all add: lit_03 lit_01 sub_1 e1)
qed

lemma scale_sizes:
  assumes "w < 2 ^ 47" "h < 2 ^ 47"
  shows "map (\<lambda>s. (js_floor (js_mul (of_nat w) s), js_floor (js_mul (of_nat h) s)))
           [8106479329266893 / 9007199254740992, 3602879701896397 / 4503599627370496,
            6305039478318695 / 9007199254740992, 1351079888211149 / 2251799813685248,
            4503599627370497 / 9007199254740992, 1801439850948199 / 4503599627370496,
            2702159776422299 / 9007199254740992] = scale_steps w h"
proof -
  have f: "js_floor (js_mul (of_nat v) s) = \<lfloor>of_nat v * (of_int k / 10 :: rat)\<rfloor>"
    if "v < 2 ^ 47" "0 \<le> k" "k \<le> 9" "of_int k / 10 \<le> s" "s \<le> of_int k / 10 + 1 / 2 ^ 52"
    for v :: nat and k :: int and s :: rat
    using that(2-5) that(1) by (rule floor_scaled)
  show ?thesis
    unfolding scale_steps_def list.map
    using f[OF assms(1), of 9] f[OF assms(1), of 8] f[OF assms(1), of 7] f[OF assms(1), of 6]
      f[OF assms(1), of 5] f[OF assms(1), of 4] f[OF assms(1), of 3]
      f[OF assms(2), of 9] f[OF assms(2), of 8] f[OF assms(2), of 7] f[OF assms(2), of 6]
      f[OF assms(2), of 5] f[OF assms(2), of 4] f[OF assms(2), of 3]
    by simp
qed



section \<open>The fitter as a whole\<close>

lemma try_ladder_trace:
  "\<exists>r tr'. try_ladder enc call mb cs tr = (r, tr @ tr') \<and> length tr' \<le> length cs \<and>
     set tr' \<subseteq> call ` set cs"
proof (induction cs arbitrary: tr)
  case Nil
  show ?case by simp
next
  case (Cons c cs)
  from Cons[of "tr @ [call c]"] obtain r tr' where
    rec: "try_ladder enc call mb cs (tr @ [call c]) = (r, tr @ [call c] @ tr')"
      "length tr' \<le> length cs" "set tr' \<subseteq> call ` set cs"
    by auto
  show ?case
  proof (cases "enc c")
    case (Inl e)
    then show ?thesis by simp
  next
    case (Inr result)
    show ?thesis
    proof (cases "of_nat (length result) \<le> mb")
      case True
      then show ?thesis using Inr by simp
    next
      case False
      have "try_ladder enc call mb (c # cs) tr = (r, tr @ (call c # tr'))"
        using False Inr rec(1) by simp
      moreover have "length (call c # tr') \<le> length (c # cs)" using rec(2) by simp
      moreover have "set (call c # tr') \<subseteq> call ` set (c # cs)" using rec(3) by auto
      ultimately show ?thesis by blast
    qed
  qed
qed

lemma try_ladder_first_fit:
  assumes "\<forall>c \<in> set pre. \<exists>r. enc c = Inr r \<and> mb < of_nat (length r)"
    and "enc c = Inr r" "of_nat (length r) \<le> mb"
  shows "try_ladder enc call mb (pre @ c # post) tr = (Return r, tr @ map call pre @ [call c])"
  using assms(1)
proof (induction pre arbitrary: tr)
  case Nil
  show ?case using assms(2,3) by simp
next
  case (Cons a pre)
  then obtain ra where "enc a = Inr ra" "mb < of_nat (length ra)" by auto
  then show ?case using Cons by simp
qed

lemma fruitless_encode:
  "fruitless lib buf mb (ToBuffer fmt v) \<longleftrightarrow>
     (\<exists>r. encode lib buf fmt v = Inr r \<and> mb < of_nat (length r))"
  by (cases "encode lib buf fmt v") simp_all

lemma fruitless_resize:
  "fruitless lib buf mb (ResizeToBuffer nw nh fmt v) \<longleftrightarrow>
     (\<exists>r. resize_encode lib buf nw nh fmt v = Inr r \<and> mb < of_nat (length r))"
  by (cases "resize_encode lib buf nw nh fmt v") simp_all

lemma resize_phase_trace:
  "\<exists>r tr'. resize_phase lib buf fmt mb tr = Some (r, tr @ Metadata # tr') \<and> length tr' \<le> 7 \<and>
     (\<forall>c \<in> set tr'. is_resize_encode c)"
proof (cases "metadata lib buf")
  case (Inl e)
  then show ?thesis by (simp add: resize_phase_def)
next
  case (Inr md)
  show ?thesis
  proof (cases "known_size md")
    case None
    then show ?thesis using Inr by (simp add: resize_phase_def)
  next
    case (Some wh)
    obtain w h where wh: "wh = (w, h)" by (cases wh)
    let ?cs = "map (\<lambda>s. (js_floor (js_mul (of_nat w) s), js_floor (js_mul (of_nat h) s)))
                [8106479329266893 / 9007199254740992, 3602879701896397 / 4503599627370496,
                 6305039478318695 / 9007199254740992, 1351079888211149 / 2251799813685248,
                 4503599627370497 / 9007199254740992, 1801439850948199 / 4503599627370496,
                 2702159776422299 / 9007199254740992 :: rat]"
    obtain r tr' where
      lad: "try_ladder (\<lambda>(nw, nh). resize_encode lib buf nw nh fmt 70)
              (\<lambda>(nw, nh). ResizeToBuffer nw nh fmt 70) mb ?cs (tr @ [Metadata]) =
            (r, (tr @ [Metadata]) @ tr')"
      and len: "length tr' \<le> length ?cs"
      and sub: "set tr' \<subseteq> (\<lambda>(nw, nh). ResizeToBuffer nw nh fmt 70) ` set ?cs"
      using try_ladder_trace[of "\<lambda>(nw, nh). resize_encode lib buf nw nh fmt 70"
          "\<lambda>(nw, nh). ResizeToBuffer nw nh fmt 70" mb ?cs "tr @ [Metadata]"]
      by blast
    have all: "\<forall>c \<in> set tr'. is_resize_encode c" using sub by auto
    have len7: "length tr' \<le> 7" using len by simp
    have "\<exists>r'. resize_phase lib buf fmt mb tr = Some (r', tr @ Metadata # tr')"
      unfolding resize_phase_def
      by (cases r) (simp_all add: Inr Some wh scale_loop_doubles lad del: list.map)
    then show ?thesis using all len7 by blast
  qed
qed

lemma call_kinds:
  "is_quality_encode c \<Longrightarrow> \<not> is_resize_encode c"
  "is_quality_encode c \<Longrightarrow> c \<noteq> Metadata"
  "is_resize_encode c \<Longrightarrow> c \<noteq> Metadata"
  by (cases c; simp)+

lemma count_le_length_filter:
  "(\<forall>c \<in> set tr. is_quality_encode c) \<Longrightarrow> quality_encodes tr = length tr"
  "(\<forall>c \<in> set tr. is_quality_encode c) \<Longrightarrow> resize_encodes tr = 0"
  "(\<forall>c \<in> set tr. is_quality_encode c) \<Longrightarrow> metadata_reads tr = 0"
  "(\<forall>c \<in> set tr. is_resize_encode c) \<Longrightarrow> resize_encodes tr = length tr"
  "(\<forall>c \<in> set tr. is_resize_encode c) \<Longrightarrow> quality_encodes tr = 0"
  "(\<forall>c \<in> set tr. is_resize_encode c) \<Longrightarrow> metadata_reads tr = 0"
  by (induction tr)
    (auto simp: quality_encodes_def resize_encodes_def metadata_reads_def dest: call_kinds)

lemma counts_append:
  "quality_encodes (a @ b) = quality_encodes a + quality_encodes b"
  "resize_encodes (a @ b) = resize_encodes a + resize_encodes b"
  "metadata_reads (a @ b) = metadata_reads a + metadata_reads b"
  by (simp_all add: quality_encodes_def resize_encodes_def metadata_reads_def)

lemma counts_Metadata:
  "quality_encodes (Metadata # b) = quality_encodes b"
  "resize_encodes (Metadata # b) = resize_encodes b"
  "metadata_reads (Metadata # b) = Suc (metadata_reads b)"
  by (simp_all add: quality_encodes_def resize_encodes_def metadata_reads_def)

lemma rnd_100: "rnd 100 = 100"
  using rnd_exact[of 100 0] by simp

lemma quality_steps_100: "quality_steps 100 = [100, 90, 80, 70, 60, 50, 40, 30, 20, 10]"
  by code_simp

lemma scale_steps_100:
  "scale_steps 100 100 = [(90, 90), (80, 80), (70, 70), (60, 60), (50, 50), (40, 40), (30, 30)]"
  by (simp add: scale_steps_def)

lemma oversize_run:
  "compressImage oversize_codec [7, 7, 7] Png 1 (Some 100) =
  Some (Inr [7, 7, 7],
     [ToBuffer Png 100, ToBuffer Png 90, ToBuffer Png 80, ToBuffer Png 70, ToBuffer Png 60,
      ToBuffer Png 50, ToBuffer Png 40, ToBuffer Png 30, ToBuffer Png 20, ToBuffer Png 10,
      Metadata, ResizeToBuffer 90 90 Png 70, ResizeToBuffer 80 80 Png 70,
      ResizeToBuffer 70 70 Png 70, ResizeToBuffer 60 60 Png 70, ResizeToBuffer 50 50 Png 70,
      ResizeToBuffer 40 40 Png 70, ResizeToBuffer 30 30 Png 70])"
proof -
  have q: "quality_loop oversize_codec [7, 7, 7] Png 1 100 [] =
      Some (Fallthrough, [ToBuffer Png 100, ToBuffer Png 90, ToBuffer Png 80, ToBuffer Png 70,
        ToBuffer Png 60, ToBuffer Png 50, ToBuffer Png 40, ToBuffer Png 30, ToBuffer Png 20,
        ToBuffer Png 10])"
    by (simp add: quality_loop_ladder[OF rnd_100] quality_steps_100 oversize_codec_def)
  have md: "metadata oversize_codec buf = Inr (Some 100, Some 100)" for buf
    by (simp add: oversize_codec_def)
  have small: "(100::nat) < 2 ^ 47" by simp
  have s: "scale_loop oversize_codec [7, 7, 7] Png 1 100 100 (js_lit (9 / 10)) tr =
      Some (Fallthrough, tr @ [ResizeToBuffer 90 90 Png 70, ResizeToBuffer 80 80 Png 70,
      ResizeToBuffer 70 70 Png 70, ResizeToBuffer 60 60 Png 70, ResizeToBuffer 50 50 Png 70,
      ResizeToBuffer 40 40 Png 70, ResizeToBuffer 30 30 Png 70])" for tr
    unfolding scale_loop_doubles scale_sizes[OF small small] scale_steps_100
    by (simp add: oversize_codec_def)
  show ?thesis
    unfolding compressImage_def initial_quality.simps
    by (simp add: q resize_phase_def md s)
qed


lemma scale_steps_1: "scale_steps 1 1 = [(0, 0), (0, 0), (0, 0), (0, 0), (0, 0), (0, 0), (0, 0)]"
  by code_simp

lemma one_pixel_run:
  "compressImage one_pixel_codec [1, 2, 3] Png 1 (Some 100) =
  Some (Inl ''Expected positive integer for width but received 0 of type number'',
     [ToBuffer Png 100, ToBuffer Png 90, ToBuffer Png 80, ToBuffer Png 70, ToBuffer Png 60,
      ToBuffer Png 50, ToBuffer Png 40, ToBuffer Png 30, ToBuffer Png 20, ToBuffer Png 10,
      Metadata, ResizeToBuffer 0 0 Png 70])"
proof -
  have q: "quality_loop one_pixel_codec [1, 2, 3] Png 1 100 [] =
      Some (Fallthrough, [ToBuffer Png 100, ToBuffer Png 90, ToBuffer Png 80, ToBuffer Png 70,
        ToBuffer Png 60, ToBuffer Png 50, ToBuffer Png 40, ToBuffer Png 30, ToBuffer Png 20,
        ToBuffer Png 10])"
    by (simp add: quality_loop_ladder[OF rnd_100] quality_steps_100 one_pixel_codec_def)
  have md: "metadata one_pixel_codec buf = Inr (Some 1, Some 1)" for buf
    by (simp add: one_pixel_codec_def)
  have small: "(1::nat) < 2 ^ 47" by simp
  have s: "scale_loop one_pixel_codec [1, 2, 3] Png 1 1 1 (js_lit (9 / 10)) tr =
      Some (Throw ''Expected positive integer for width but received 0 of type number'',
            tr @ [ResizeToBuffer 0 0 Png 70])" for tr
    unfolding scale_loop_doubles scale_sizes[OF small small] scale_steps_1
    by (simp add: one_pixel_codec_def)
  show ?thesis
    unfolding compressImage_def initial_quality.simps
    by (simp add: q resize_phase_def md s del: One_nat_def)
qed

lemma try_ladder_fruitless:
  assumes "\<And>c. fruitless lib buf mb (call c) =
             (case enc c of Inl e \<Rightarrow> False | Inr r \<Rightarrow> mb < of_nat (length r))"
  shows "\<exists>r tr'. try_ladder enc call mb cs tr = (r, tr @ tr') \<and>
           ((\<forall>c \<in> set tr'. fruitless lib buf mb c) \<longrightarrow> r = Fallthrough)"
proof (induction cs arbitrary: tr)
  case Nil
  show ?case by simp
next
  case (Cons c cs)
  from Cons[of "tr @ [call c]"] obtain r tr' where
    rec: "try_ladder enc call mb cs (tr @ [call c]) = (r, tr @ [call c] @ tr')"
      "(\<forall>c \<in> set tr'. fruitless lib buf mb c) \<longrightarrow> r = Fallthrough"
    by auto
  show ?case
  proof (cases "enc c")
    case (Inl e)
    then show ?thesis using assms[of c] by simp
  next
    case (Inr result)
    show ?thesis
    proof (cases "of_nat (length result) \<le> mb")
      case True
      then show ?thesis using Inr assms[of c] by simp
    next
      case False
      have "try_ladder enc call mb (c # cs) tr = (r, tr @ (call c # tr'))"
        using False Inr rec(1) by simp
      then show ?thesis using rec(2) by auto
    qed
  qed
qed

lemma quality_loop_fruitless:
  assumes "q \<le> 10 * of_nat n" "n \<le> 10"
  shows "\<exists>r tr'. quality_loop lib buf fmt mb q tr = Some (r, tr @ tr') \<and>
           ((\<forall>c \<in> set tr'. fruitless lib buf mb c) \<longrightarrow> r = Fallthrough)"
  using assms
proof (induction n arbitrary: q tr)
  case 0
  then have "\<not> 10 \<le> q" by simp
  then show ?case by (simp add: quality_loop_exit)
next
  case (Suc n)
  show ?case
  proof (cases "10 \<le> q")
    case False
    then show ?thesis by (simp add: quality_loop_exit)
  next
    case True
    have "rnd (q - 10) \<le> of_int (10 * int n) * 2 powi 0"
    proof (rule rnd_le)
      show "0 \<le> q - 10" using True by simp
      show "10 * int n < 2 ^ 53" using Suc.prems(2) by simp
      show "q - 10 \<le> of_int (10 * int n) * 2 powi 0" using Suc.prems(1) by simp
    qed
    then have "js_sub q 10 \<le> 10 * of_nat n" by (simp add: js_sub_def)
    from Suc.IH[OF this, of "tr @ [ToBuffer fmt q]"] Suc.prems(2)
    obtain r tr' where rec: "quality_loop lib buf fmt mb (js_sub q 10) (tr @ [ToBuffer fmt q]) =
        Some (r, tr @ [ToBuffer fmt q] @ tr')"
      "(\<forall>c \<in> set tr'. fruitless lib buf mb c) \<longrightarrow> r = Fallthrough"
      by auto
    show ?thesis
    proof (cases "encode lib buf fmt q")
      case (Inl e)
      then show ?thesis by (simp add: quality_loop_step[OF True])
    next
      case (Inr result)
      show ?thesis
      proof (cases "of_nat (length result) \<le> mb")
        case fits: True
        then show ?thesis by (simp add: quality_loop_step[OF True] Inr)
      next
        case False
        have "quality_loop lib buf fmt mb q tr = Some (r, tr @ ([ToBuffer fmt q] @ tr'))"
          using False rec(1) by (simp add: quality_loop_step[OF True] Inr)
        then show ?thesis using rec(2) by auto
      qed
    qed
  qed
qed

lemma resize_phase_fruitless:
  "\<exists>r tr'. resize_phase lib buf fmt mb tr = Some (r, tr @ tr') \<and>
     ((\<forall>c \<in> set tr'. fruitless lib buf mb c) \<longrightarrow> r = Inr buf)"
proof (cases "metadata lib buf")
  case (Inl e)
  then show ?thesis by (simp add: resize_phase_def)
next
  case (Inr md)
  show ?thesis
  proof (cases "known_size md")
    case None
    then show ?thesis using Inr by (simp add: resize_phase_def)
  next
    case (Some wh)
    obtain w h where wh: "wh = (w, h)" by (cases wh)
    let ?cs = "map (\<lambda>s. (js_floor (js_mul (of_nat w) s), js_floor (js_mul (of_nat h) s)))
                [8106479329266893 / 9007199254740992, 3602879701896397 / 4503599627370496,
                 6305039478318695 / 9007199254740992, 1351079888211149 / 2251799813685248,
                 4503599627370497 / 9007199254740992, 1801439850948199 / 4503599627370496,
                 2702159776422299 / 9007199254740992 :: rat]"
    have "\<exists>r tr'. try_ladder (\<lambda>(nw, nh). resize_encode lib buf nw nh fmt 70)
              (\<lambda>(nw, nh). ResizeToBuffer nw nh fmt 70) mb ?cs (tr @ [Metadata]) =
            (r, (tr @ [Metadata]) @ tr') \<and>
            ((\<forall>c \<in> set tr'. fruitless lib buf mb c) \<longrightarrow> r = Fallthrough)"
      by (rule try_ladder_fruitless) (simp split: prod.splits)
    then obtain r tr' where
      lad: "try_ladder (\<lambda>(nw, nh). resize_encode lib buf nw nh fmt 70)
              (\<lambda>(nw, nh). ResizeToBuffer nw nh fmt 70) mb ?cs (tr @ [Metadata]) =
            (r, (tr @ [Metadata]) @ tr')"
      and fall: "(\<forall>c \<in> set tr'. fruitless lib buf mb c) \<longrightarrow> r = Fallthrough"
      by blast
    have "\<exists>r'. resize_phase lib buf fmt mb tr = Some (r', tr @ (Metadata # tr')) \<and>
            (r = Fallthrough \<longrightarrow> r' = Inr buf)"
      unfolding resize_phase_def
      by (cases r) (simp_all add: Inr Some wh scale_loop_doubles lad del: list.map)
    then show ?thesis using fall by fastforce
  qed
qed

text \<open>
  When every codec call of a run was fruitless, the fitter returns the bytes it was given.
\<close>

lemma compressImage_fruitless:
  assumes "initial_quality q \<le> 100"
  shows "\<exists>r tr. compressImage lib buf fmt mb q = Some (r, tr) \<and>
           ((\<forall>c \<in> set tr. fruitless lib buf mb c) \<longrightarrow> r = Inr buf)"
proof -
  have "initial_quality q \<le> 10 * of_nat 10" using assms by simp
  from quality_loop_fruitless[OF this, of lib buf fmt mb "[]"]
  obtain r1 tr1 where
    q1: "quality_loop lib buf fmt mb (initial_quality q) [] = Some (r1, tr1)"
    and f1: "(\<forall>c \<in> set tr1. fruitless lib buf mb c) \<longrightarrow> r1 = Fallthrough"
    by auto
  obtain r2 tr2 where
    p2: "resize_phase lib buf fmt mb tr1 = Some (r2, tr1 @ tr2)"
    and f2: "(\<forall>c \<in> set tr2. fruitless lib buf mb c) \<longrightarrow> r2 = Inr buf"
    using resize_phase_fruitless by blast
  show ?thesis
  proof (cases r1)
    case (Return result)
    then show ?thesis using q1 f1 by (auto simp: compressImage_def)
  next
    case (Throw e)
    then show ?thesis using q1 f1 by (auto simp: compressImage_def)
  next
    case Fallthrough
    then have "compressImage lib buf fmt mb q = Some (r2, tr1 @ tr2)"
      using q1 p2 by (simp add: compressImage_def)
    then show ?thesis using f2 by auto
  qed
qed

section \<open>The page calls of the orchestrator\<close>

lemma page_op_calls: "calls (snd (page_op pp c st)) = calls st @ [c]"
  by (simp add: page_op_def)

lemma page_op_eq:
  "page_op pp c st = (r, st') \<Longrightarrow> r = pp (calls st) c \<and> calls st' = calls st @ [c]"
  by (auto simp: page_op_def)




lemma load_page_url:
  assumes "load_page pp body st = (r, st1)" and "url body = Some u" "u \<noteq> []"
  shows "\<exists>cs. calls st1 = calls st @ cs \<and> (\<forall>h. SetContent h \<notin> set cs) \<and>
           ((\<exists>x. r = Inr x) \<longrightarrow> Goto u \<in> set cs)"
proof (cases "launched st")
  case False
  then show ?thesis using assms by (auto simp add: load_page_def)
next
  case True
  obtain r0 st0 where p0: "page_op pp NewPage st = (r0, st0)" by (cases "page_op pp NewPage st")
  have c0: "calls st0 = calls st @ [NewPage]" using page_op_eq[OF p0] by simp
  show ?thesis
  proof (cases r0)
    case (Inl e)
    then show ?thesis using assms True p0 c0 by (auto simp: load_page_def)
  next
    case (Inr x)
    obtain r2 st2 where p2: "(case viewport (export body) of
                     None \<Rightarrow> (Inr [], st0)
                   | Some vp \<Rightarrow> page_op pp (SetViewport vp) st0) = (r2, st2)"
      by (cases "case viewport (export body) of
                     None \<Rightarrow> (Inr [], st0)
                   | Some vp \<Rightarrow> page_op pp (SetViewport vp) st0")
    have c2: "\<exists>cs. calls st2 = calls st0 @ cs \<and> (\<forall>c \<in> set cs. \<exists>v. c = SetViewport v)"
      using p2 by (cases "viewport (export body)") (auto simp: page_op_def)
    show ?thesis
    proof (cases r2)
      case (Inl e)
      then show ?thesis using assms True p0 Inr p2 c0 c2 by (auto simp: load_page_def)
    next
      case r2: (Inr y)
      have "page_op pp (Goto u) st2 = (r, st1)"
        using assms True p0 Inr p2 r2 by (simp add: load_page_def)
      from page_op_eq[OF this] c0 c2 show ?thesis by auto
    qed
  qed
qed

lemma new_calls_append: "calls st' = calls st @ cs \<Longrightarrow> new_calls st st' = cs"
  by (simp add: new_calls_def)



lemma generateImage_load_fails:
  "load_page pp body st = (Inl e, st1) \<Longrightarrow> generateImage lib pp body st = Some (Inl e, st1, [])"
  by (simp add: generateImage_def)

lemma generateImage_capture_fails:
  assumes "load_page pp body st = (Inr x, st1)"
    and "pp (calls st1) (screenshot_call (export body)) = Inl e"
  shows "generateImage lib pp body st =
           Some (Inl e, snd (page_op pp (screenshot_call (export body)) st1), [])"
  using assms by (simp add: generateImage_def page_op_def)

lemma generateImage_close_fails:
  assumes "load_page pp body st = (Inr x, st1)"
    and "pp (calls st1) (screenshot_call (export body)) = Inr res"
    and "pp (calls st1 @ [screenshot_call (export body)]) Close = Inl e"
  shows "generateImage lib pp body st =
           Some (Inl e, snd (page_op pp Close
                   (snd (page_op pp (screenshot_call (export body)) st1))), [])"
  using assms by (simp add: generateImage_def page_op_def)

lemma generateImage_captured:
  assumes "load_page pp body st = (Inr x, st1)"
    and "pp (calls st1) (screenshot_call (export body)) = Inr res"
    and "pp (calls st1 @ [screenshot_call (export body)]) Close = Inr y"
  shows "generateImage lib pp body st =
           (if maxFileSize (export body) < of_nat (length res)
            then map_option (\<lambda>(r, tr). (r, snd (page_op pp Close
                   (snd (page_op pp (screenshot_call (export body)) st1))), tr))
                   (compressImage lib res (type (export body))
                      (maxFileSize (export body)) (Some (quality (export body))))
            else Some (Inr res, snd (page_op pp Close
                   (snd (page_op pp (screenshot_call (export body)) st1))), []))"
  using assms by (simp add: generateImage_def page_op_def)


lemma working_pdf_run:
  "generatePdf working_pages example_pdf_request idle_browser =
     (Inr [1, 2, 3],
      \<lparr>launched = True, open_pages = 0,
       calls = [NewPage, Goto ''https://example.com'', PrintPdf example_pdf_export, Close]\<rparr>)"
  by (simp add: generatePdf_def load_page_def page_op_def working_pages_def
      example_pdf_request_def idle_browser_def example_pdf_export_def)


section \<open>The validator\<close>

lemma safeParse_Inr_iff: "safeParse p = Inr v \<longleftrightarrow> p = Parsed [] (Some v)"
  by (cases p rule: safeParse.cases) simp_all

lemma ap_ok_iff:
  "ap pf pa = Parsed [] (Some r) \<longleftrightarrow>
     (\<exists>g a. pf = Parsed [] (Some g) \<and> pa = Parsed [] (Some a) \<and> r = g a)"
  by (cases pf; cases pa) (auto split: option.splits)

lemma z_refine_ok_iff:
  "z_refine f i p = Parsed [] (Some v) \<longleftrightarrow> p = Parsed [] (Some v) \<and> f v = Inr True"
proof (cases p)
  case (Threw e)
  then show ?thesis by simp
next
  case (Parsed iss vo)
  then show ?thesis by (cases vo) (auto split: sum.splits)
qed

lemma z_object_ok_iff:
  "z_object p sh b = Parsed [] (Some v) \<longleftrightarrow>
     (\<exists>kvs. b = Some (JObject kvs) \<and> sh kvs = Parsed [] (Some v))"
proof (cases b)
  case None
  then show ?thesis by simp
next
  case (Some j)
  then show ?thesis by (cases j) simp_all
qed

lemma z_number_ok_iff:
  "z_number chk p b = Parsed [] (Some x) \<longleftrightarrow> b = Some (JNumber x) \<and> chk p x = []"
proof (cases b)
  case None
  then show ?thesis by simp
next
  case (Some j)
  then show ?thesis by (cases j) auto
qed

lemma min_max_nil: "min_max lo hi p x = [] \<longleftrightarrow> lo \<le> x \<and> x \<le> hi"
  by (auto simp: min_max_def)

lemma lit_01_ge: "1 / 10 \<le> js_lit (1 / 10)"
  by (simp add: lit_01)

lemma scale_schema_ok:
  assumes "scale_schema p b = Parsed [] (Some s)"
  shows "1 / 10 \<le> s \<and> s \<le> 2 \<and> (\<forall>x. b = Some (JNumber x) \<longrightarrow> x = s)"
proof -
  have "js_lit (1 / 10) \<le> s \<and> s \<le> 2 \<and> (\<forall>x. b = Some (JNumber x) \<longrightarrow> x = s)"
    using assms
    by (cases b) (auto simp: scale_schema_def z_number_ok_iff min_max_nil)
  then show ?thesis using lit_01_ge by auto
qed

lemma quality_schema_ok:
  assumes "quality_schema p b = Parsed [] (Some q)"
  shows "0 \<le> q \<and> q \<le> 100 \<and> (\<forall>x. b = Some (JNumber x) \<longrightarrow> x = q)"
  using assms
  by (cases b) (auto simp: quality_schema_def z_number_ok_iff min_max_nil)

lemma pdf_export_ok:
  assumes "pdf_export_schema b = Parsed [] (Some e)"
  shows "\<exists>kvs. (case b of None \<Rightarrow> pdf_export_default | Some j \<Rightarrow> j) = JObject kvs \<and>
           scale_schema [''export'', ''scale''] (jget kvs ''scale'') = Parsed [] (Some (scale e)) \<and>
           quality_schema [''export'', ''quality''] (jget kvs ''quality'') =
             Parsed [] (Some (quality e))"
  using assms unfolding pdf_export_schema_def
  by (cases b) (auto simp: z_object_ok_iff ap_ok_iff)

lemma image_export_ok:
  assumes "image_export_schema b = Parsed [] (Some e)"
  shows "\<exists>kvs. (case b of None \<Rightarrow> image_export_default | Some j \<Rightarrow> j) = JObject kvs \<and>
           scale_schema [''export'', ''scale''] (jget kvs ''scale'') = Parsed [] (Some (scale e)) \<and>
           quality_schema [''export'', ''quality''] (jget kvs ''quality'') =
             Parsed [] (Some (quality e))"
  using assms unfolding image_export_schema_def
  by (cases b) (auto simp: z_object_ok_iff ap_ok_iff)

lemma PdfRequestSchema_ok:
  assumes "safeParse (PdfRequestSchema valid_url body) = Inr req"
  shows "\<exists>kvs. body = Some (JObject kvs) \<and>
           pdf_export_schema (jget kvs ''export'') = Parsed [] (Some (export req)) \<and>
           (truthy_string (url req) \<or> truthy_string (html req))"
  using assms unfolding PdfRequestSchema_def safeParse_Inr_iff
  by (auto simp: z_refine_ok_iff z_object_ok_iff ap_ok_iff)

lemma ImageRequestSchema_ok:
  assumes "safeParse (ImageRequestSchema valid_url body) = Inr req"
  shows "\<exists>kvs. body = Some (JObject kvs) \<and>
           image_export_schema (jget kvs ''export'') = Parsed [] (Some (export req)) \<and>
           (truthy_string (url req) \<or> truthy_string (html req))"
  using assms unfolding ImageRequestSchema_def safeParse_Inr_iff
  by (auto simp: z_refine_ok_iff z_object_ok_iff ap_ok_iff)

lemma PdfRequestSchema_both:
  assumes "valid_url u" "u \<noteq> []" "h \<noteq> []"
    and "jget kvs ''url'' = Some (JString u)" "jget kvs ''html'' = Some (JString h)"
    and "pdf_export_schema (jget kvs ''export'') = Parsed [] (Some e)"
  shows "safeParse (PdfRequestSchema valid_url (Some (JObject kvs))) =
           Inr \<lparr>url = Some u, html = Some h, export = e\<rparr>"
  using assms
  by (simp add: PdfRequestSchema_def url_schema_def html_schema_def urlCustom_def htmlCustom_def)

lemma ImageRequestSchema_both:
  assumes "valid_url u" "u \<noteq> []" "h \<noteq> []"
    and "jget kvs ''url'' = Some (JString u)" "jget kvs ''html'' = Some (JString h)"
    and "image_export_schema (jget kvs ''export'') = Parsed [] (Some e)"
  shows "safeParse (ImageRequestSchema valid_url (Some (JObject kvs))) =
           Inr \<lparr>url = Some u, html = Some h, export = e\<rparr>"
  using assms
  by (simp add: ImageRequestSchema_def url_schema_def html_schema_def urlCustom_def htmlCustom_def)

lemma pdf_export_schema_default: "pdf_export_schema None = Parsed [] (Some example_pdf_export)"
  by (simp add: pdf_export_schema_def pdf_export_default_def jget_def scale_schema_def
      type_schema_def quality_schema_def boolean_default_def clip_schema_def encoding_schema_def
      margin_schema_def viewport_schema_def min_max_def lit_01 example_pdf_export_def)

lemma PdfRequestSchema_no_target:
  assumes "jget kvs ''url'' = None" "jget kvs ''html'' = None"
  shows "PdfRequestSchema valid_url (Some (JObject kvs)) =
           (case pdf_export_schema (jget kvs ''export'') of
              Threw e \<Rightarrow> Threw e
            | Parsed iss None \<Rightarrow> Parsed iss None
            | Parsed iss (Some e) \<Rightarrow>
                Parsed (iss @ [Custom [] ''Either url or html must be provided''])
                  (Some \<lparr>url = None, html = None, export = e\<rparr>))"
  using assms
  by (simp add: PdfRequestSchema_def url_schema_def html_schema_def
      split: parse_return.splits option.splits)

lemma ImageRequestSchema_no_target:
  assumes "jget kvs ''url'' = None" "jget kvs ''html'' = None"
  shows "ImageRequestSchema valid_url (Some (JObject kvs)) =
           (case image_export_schema (jget kvs ''export'') of
              Threw e \<Rightarrow> Threw e
            | Parsed iss None \<Rightarrow> Parsed iss None
            | Parsed iss (Some e) \<Rightarrow>
                Parsed (iss @ [Custom [] ''Either url or html must be provided''])
                  (Some \<lparr>url = None, html = None, export = e\<rparr>))"
  using assms
  by (simp add: ImageRequestSchema_def url_schema_def html_schema_def
      split: parse_return.splits option.splits)

lemma safeParse_issue: "safeParse (Parsed (iss @ [i]) v) = Inl (Issues (iss @ [i]))"
  by (cases "iss @ [i]") simp_all

lemma safeParse_aborted: "safeParse (Parsed iss None) = Inl (Issues iss)"
  by (cases iss) simp_all

lemma no_target_rejected:
  assumes "\<not> has_key body ''url''" "\<not> has_key body ''html''"
  shows "\<exists>rej. safeParse (PdfRequestSchema valid_url (Some body)) = Inl rej"
    and "\<exists>rej. safeParse (ImageRequestSchema valid_url (Some body)) = Inl rej"
proof -
  show "\<exists>rej. safeParse (PdfRequestSchema valid_url (Some body)) = Inl rej"
  proof (cases body)
    case (JObject kvs)
    then have k: "jget kvs ''url'' = None" "jget kvs ''html'' = None"
      using assms by (simp_all add: has_key_def)
    show ?thesis unfolding JObject PdfRequestSchema_no_target[OF k]
      by (auto simp: safeParse_issue safeParse_aborted split: parse_return.splits option.splits)
  qed (simp_all add: PdfRequestSchema_def)
  show "\<exists>rej. safeParse (ImageRequestSchema valid_url (Some body)) = Inl rej"
  proof (cases body)
    case (JObject kvs)
    then have k: "jget kvs ''url'' = None" "jget kvs ''html'' = None"
      using assms by (simp_all add: has_key_def)
    show ?thesis unfolding JObject ImageRequestSchema_no_target[OF k]
      by (auto simp: safeParse_issue safeParse_aborted split: parse_return.splits option.splits)
  qed (simp_all add: ImageRequestSchema_def)
qed

lemma not_accepted: "(\<And>v. safeParse p \<noteq> Inr v) \<Longrightarrow> \<exists>rej. safeParse p = Inl rej"
  by (cases "safeParse p") auto

lemma pdf_out_of_range_rejected:
  assumes "jget kvs ''export'' = Some (JObject ekvs)"
    and "(\<exists>x. jget ekvs ''scale'' = Some (JNumber x) \<and> (x < 1 / 10 \<or> 2 < x)) \<or>
         (\<exists>x. jget ekvs ''quality'' = Some (JNumber x) \<and> (x < 0 \<or> 100 < x))"
  shows "\<exists>rej. safeParse (PdfRequestSchema valid_url (Some (JObject kvs))) = Inl rej"
proof (rule not_accepted)
  fix req
  show "safeParse (PdfRequestSchema valid_url (Some (JObject kvs))) \<noteq> Inr req"
  proof
    assume "safeParse (PdfRequestSchema valid_url (Some (JObject kvs))) = Inr req"
    from PdfRequestSchema_ok[OF this] assms(1)
    have "pdf_export_schema (Some (JObject ekvs)) = Parsed [] (Some (export req))" by auto
    from pdf_export_ok[OF this]
    have "scale_schema [''export'', ''scale''] (jget ekvs ''scale'') =
            Parsed [] (Some (scale (export req)))"
      and "quality_schema [''export'', ''quality''] (jget ekvs ''quality'') =
            Parsed [] (Some (quality (export req)))"
      by auto
    from scale_schema_ok[OF this(1)] quality_schema_ok[OF this(2)] assms(2)
    show False by auto
  qed
qed

lemma image_out_of_range_rejected:
  assumes "jget kvs ''export'' = Some (JObject ekvs)"
    and "(\<exists>x. jget ekvs ''scale'' = Some (JNumber x) \<and> (x < 1 / 10 \<or> 2 < x)) \<or>
         (\<exists>x. jget ekvs ''quality'' = Some (JNumber x) \<and> (x < 0 \<or> 100 < x))"
  shows "\<exists>rej. safeParse (ImageRequestSchema valid_url (Some (JObject kvs))) = Inl rej"
proof (rule not_accepted)
  fix req
  show "safeParse (ImageRequestSchema valid_url (Some (JObject kvs))) \<noteq> Inr req"
  proof
    assume "safeParse (ImageRequestSchema valid_url (Some (JObject kvs))) = Inr req"
    from ImageRequestSchema_ok[OF this] assms(1)
    have "image_export_schema (Some (JObject ekvs)) = Parsed [] (Some (export req))" by auto
    from image_export_ok[OF this]
    have "scale_schema [''export'', ''scale''] (jget ekvs ''scale'') =
            Parsed [] (Some (scale (export req)))"
      and "quality_schema [''export'', ''quality''] (jget ekvs ''quality'') =
            Parsed [] (Some (quality (export req)))"
      by auto
    from scale_schema_ok[OF this(1)] quality_schema_ok[OF this(2)] assms(2)
    show False by auto
  qed
qed

lemma pdf_accepted_range:
  assumes "safeParse (PdfRequestSchema valid_url body) = Inr req"
  shows "1 / 10 \<le> scale (export req) \<and> scale (export req) \<le> 2 \<and>
         0 \<le> quality (export req) \<and> quality (export req) \<le> 100"
proof -
  from PdfRequestSchema_ok[OF assms] obtain kvs where
    "pdf_export_schema (jget kvs ''export'') = Parsed [] (Some (export req))" by blast
  from pdf_export_ok[OF this] obtain ekvs where
    "scale_schema [''export'', ''scale''] (jget ekvs ''scale'') =
            Parsed [] (Some (scale (export req)))"
    "quality_schema [''export'', ''quality''] (jget ekvs ''quality'') =
            Parsed [] (Some (quality (export req)))"
    by blast
  from scale_schema_ok[OF this(1)] quality_schema_ok[OF this(2)] show ?thesis by simp
qed

lemma image_accepted_range:
  assumes "safeParse (ImageRequestSchema valid_url body) = Inr req"
  shows "1 / 10 \<le> scale (export req) \<and> scale (export req) \<le> 2 \<and>
         0 \<le> quality (export req) \<and> quality (export req) \<le> 100"
proof -
  from ImageRequestSchema_ok[OF assms] obtain kvs where
    "image_export_schema (jget kvs ''export'') = Parsed [] (Some (export req))" by blast
  from image_export_ok[OF this] obtain ekvs where
    "scale_schema [''export'', ''scale''] (jget ekvs ''scale'') =
            Parsed [] (Some (scale (export req)))"
    "quality_schema [''export'', ''quality''] (jget ekvs ''quality'') =
            Parsed [] (Some (quality (export req)))"
    by blast
  from scale_schema_ok[OF this(1)] quality_schema_ok[OF this(2)] show ?thesis by simp
qed

lemma url_only_parse:
  "safeParse (PdfRequestSchema sample_valid_url (Some url_only_body)) =
     Inr \<lparr>url = Some ''https://example.com'', html = None, export = example_pdf_export\<rparr>"
  by (simp add: PdfRequestSchema_def url_only_body_def url_schema_def html_schema_def
      urlCustom_def sample_valid_url_def jget_def pdf_export_schema_default)

lemma quality_zero_parse:
  "safeParse (ImageRequestSchema sample_valid_url (Some quality_zero_body)) =
     Inr \<lparr>url = Some ''https://example.com'', html = None,
          export = example_image_export\<lparr>quality := 0\<rparr>\<rparr>"
  by (simp add: ImageRequestSchema_def quality_zero_body_def url_schema_def html_schema_def
      urlCustom_def sample_valid_url_def jget_def image_export_schema_def scale_schema_def
      type_schema_def quality_schema_def boolean_default_def clip_schema_def encoding_schema_def
      maxFileSize_schema_def viewport_schema_def min_max_def positive_def lit_01
      example_image_export_def)


section \<open>The orchestrator with a url; the first call of the fitter\<close>

lemma generatePdf_url:
  assumes "url body = Some u" "u \<noteq> []" and g: "generatePdf pp body st = (r, st')"
  shows "\<exists>cs. calls st' = calls st @ cs \<and> (\<forall>h. SetContent h \<notin> set cs) \<and>
           ((\<exists>res. r = Inr res) \<longrightarrow> Goto u \<in> set cs)"
proof -
  obtain r1 st1 where l: "load_page pp body st = (r1, st1)" by (cases "load_page pp body st")
  from load_page_url[OF l assms(1,2)] obtain cs where
    cs: "calls st1 = calls st @ cs" "\<forall>h. SetContent h \<notin> set cs"
      "(\<exists>x. r1 = Inr x) \<longrightarrow> Goto u \<in> set cs"
    by blast
  show ?thesis
  proof (cases r1)
    case (Inl e)
    then show ?thesis using g l cs by (auto simp: generatePdf_def)
  next
    case (Inr x)
    obtain r2 st2 where p: "page_op pp (PrintPdf (export body)) st1 = (r2, st2)"
      by (cases "page_op pp (PrintPdf (export body)) st1")
    have c2: "calls st2 = calls st @ cs @ [PrintPdf (export body)]"
      using page_op_eq[OF p] cs by simp
    show ?thesis
    proof (cases r2)
      case (Inl e)
      then show ?thesis using g l Inr p c2 cs(2) by (auto simp: generatePdf_def)
    next
      case r2: (Inr res)
      have "calls st' = calls st @ cs @ [PrintPdf (export body), Close]"
        using g l Inr p r2 c2 by (auto simp: generatePdf_def page_op_calls)
      then show ?thesis using cs Inr by auto
    qed
  qed
qed

lemma generateImage_url:
  assumes "url body = Some u" "u \<noteq> []" and g: "generateImage lib pp body st = Some (r, st', tr)"
  shows "\<exists>cs. calls st' = calls st @ cs \<and> (\<forall>h. SetContent h \<notin> set cs) \<and>
           ((\<exists>res. r = Inr res) \<longrightarrow> Goto u \<in> set cs)"
proof -
  obtain r1 st1 where l: "load_page pp body st = (r1, st1)" by (cases "load_page pp body st")
  from load_page_url[OF l assms(1,2)] obtain cs where
    cs: "calls st1 = calls st @ cs" "\<forall>h. SetContent h \<notin> set cs"
      "(\<exists>x. r1 = Inr x) \<longrightarrow> Goto u \<in> set cs"
    by blast
  let ?shot = "screenshot_call (export body)"
  have shot: "?shot \<noteq> SetContent h" "SetContent h \<noteq> ?shot" for h
    by (simp_all add: screenshot_call_def)
  show ?thesis
  proof (cases r1)
    case (Inl e)
    then show ?thesis using g generateImage_load_fails[of pp body st e st1 lib] l cs by auto
  next
    case (Inr x)
    note l' = l[unfolded Inr]
    have goto: "Goto u \<in> set cs" using cs(3) Inr by simp
    show ?thesis
    proof (cases "pp (calls st1) ?shot")
      case (Inl e)
      from generateImage_capture_fails[OF l' Inl, of lib] g
      have "st' = snd (page_op pp ?shot st1)" "r = Inl e" by simp_all
      then show ?thesis using cs shot by (auto simp: page_op_calls)
    next
      case res: (Inr res)
      let ?st3 = "snd (page_op pp Close (snd (page_op pp ?shot st1)))"
      have c3: "calls ?st3 = calls st @ cs @ [?shot, Close]"
        using cs by (simp add: page_op_calls)
      have ok: "\<exists>cs. calls ?st3 = calls st @ cs \<and> (\<forall>h. SetContent h \<notin> set cs) \<and> Goto u \<in> set cs"
        using c3 cs(2) goto shot by auto
      show ?thesis
      proof (cases "pp (calls st1 @ [?shot]) Close")
        case (Inl e)
        from generateImage_close_fails[OF l' res Inl, of lib] g
        have "st' = ?st3" by simp
        then show ?thesis using ok by auto
      next
        case (Inr y)
        from generateImage_captured[OF l' res Inr, of lib] g
        have "st' = ?st3"
          by (cases "compressImage lib res (type (export body)) (maxFileSize (export body))
                       (Some (quality (export body)))")
             (auto split: if_splits)
        then show ?thesis using ok by auto
      qed
    qed
  qed
qed

lemma rnd_90: "rnd 90 = 90"
  using rnd_exact[of 90 0] by simp

lemma compressImage_first_call:
  assumes "initial_quality q = 100"
  shows "\<exists>r tr. compressImage lib buf fmt mb q = Some (r, ToBuffer fmt 100 # tr)"
proof -
  have ge: "(10::rat) \<le> 100" by simp
  have "\<exists>r tr. quality_loop lib buf fmt mb 100 [] = Some (r, ToBuffer fmt 100 # tr)"
  proof (cases "encode lib buf fmt 100")
    case (Inl e)
    then show ?thesis by (simp add: quality_loop_step[OF ge])
  next
    case (Inr result)
    show ?thesis
    proof (cases "of_nat (length result) \<le> mb")
      case True
      then show ?thesis using Inr by (simp add: quality_loop_step[OF ge])
    next
      case False
      have "js_sub 100 10 \<le> 10 * of_nat 9" by (simp add: js_sub_def rnd_90)
      from quality_loop_bound[OF this, of lib buf fmt mb "[ToBuffer fmt 100]"]
      obtain r tr' where
        "quality_loop lib buf fmt mb (js_sub 100 10) [ToBuffer fmt 100] =
           Some (r, [ToBuffer fmt 100] @ tr')"
        by auto
      then show ?thesis using Inr False by (simp add: quality_loop_step[OF ge])
    qed
  qed
  then obtain r1 tr1 where
    q1: "quality_loop lib buf fmt mb 100 [] = Some (r1, ToBuffer fmt 100 # tr1)" by blast
  show ?thesis
  proof (cases r1)
    case (Return result)
    then show ?thesis using q1 assms by (simp add: compressImage_def)
  next
    case (Throw e)
    then show ?thesis using q1 assms by (simp add: compressImage_def)
  next
    case Fallthrough
    obtain r2 tr2 where
      "resize_phase lib buf fmt mb (ToBuffer fmt 100 # tr1) =
         Some (r2, (ToBuffer fmt 100 # tr1) @ Metadata # tr2)"
      using resize_phase_trace by blast
    then show ?thesis using q1 assms Fallthrough by (simp add: compressImage_def)
  qed
qed


section \<open>Bounds on the codec calls\<close>

lemma compressImage_bound:
  assumes "initial_quality q \<le> 100"
  shows "\<exists>r tr. compressImage lib buf fmt mb q = Some (r, tr) \<and>
           quality_encodes tr \<le> 10 \<and> resize_encodes tr \<le> 7 \<and> metadata_reads tr \<le> 1 \<and>
           quality_encodes tr + resize_encodes tr \<le> 17"
proof -
  have "initial_quality q \<le> 10 * of_nat 10" using assms by simp
  from quality_loop_bound[OF this, of lib buf fmt mb "[]"]
  obtain r1 tr1 where
    q1: "quality_loop lib buf fmt mb (initial_quality q) [] = Some (r1, tr1)"
    and l1: "length tr1 \<le> 10" and a1: "\<forall>c \<in> set tr1. is_quality_encode c"
    by auto
  note c1 = count_le_length_filter(1-3)[OF a1]
  show ?thesis
  proof (cases r1)
    case (Return result)
    then show ?thesis using q1 l1 c1 by (simp add: compressImage_def)
  next
    case (Throw e)
    then show ?thesis using q1 l1 c1 by (simp add: compressImage_def)
  next
    case Fallthrough
    obtain r2 tr2 where
      p2: "resize_phase lib buf fmt mb tr1 = Some (r2, tr1 @ Metadata # tr2)"
      and l2: "length tr2 \<le> 7" and a2: "\<forall>c \<in> set tr2. is_resize_encode c"
      using resize_phase_trace by blast
    note c2 = count_le_length_filter(4-6)[OF a2]
    have "compressImage lib buf fmt mb q = Some (r2, tr1 @ Metadata # tr2)"
      using q1 Fallthrough p2 by (simp add: compressImage_def)
    then show ?thesis using l1 l2 c1 c2 by (simp add: counts_append counts_Metadata)
  qed
qed

lemma counts_Nil:
  "quality_encodes [] = 0" "resize_encodes [] = 0" "metadata_reads [] = 0"
  by (simp_all add: quality_encodes_def resize_encodes_def metadata_reads_def)

lemma generateImage_bound:
  assumes "0 \<le> quality (export body)" "quality (export body) \<le> 100"
  shows "\<exists>r st' tr. generateImage lib pp body st = Some (r, st', tr) \<and>
           quality_encodes tr \<le> 10 \<and> resize_encodes tr \<le> 7 \<and> metadata_reads tr \<le> 1 \<and>
           quality_encodes tr + resize_encodes tr \<le> 17"
proof -
  obtain r1 st1 where l: "load_page pp body st = (r1, st1)" by (cases "load_page pp body st")
  let ?shot = "screenshot_call (export body)"
  show ?thesis
  proof (cases r1)
    case (Inl e)
    then show ?thesis using generateImage_load_fails[of pp body st e st1 lib] l
      by (simp add: counts_Nil)
  next
    case (Inr x)
    note l' = l[unfolded Inr]
    show ?thesis
    proof (cases "pp (calls st1) ?shot")
      case (Inl e)
      from generateImage_capture_fails[OF l' Inl, of lib] show ?thesis
        by (simp add: counts_Nil)
    next
      case res: (Inr res)
      show ?thesis
      proof (cases "pp (calls st1 @ [?shot]) Close")
        case (Inl e)
        from generateImage_close_fails[OF l' res Inl, of lib] show ?thesis
          by (simp add: counts_Nil)
      next
        case (Inr y)
        have "initial_quality (Some (quality (export body))) \<le> 100"
          using assms by simp
        from compressImage_bound[OF this, of lib res "type (export body)"
            "maxFileSize (export body)"]
        obtain r tr where
          "compressImage lib res (type (export body)) (maxFileSize (export body))
             (Some (quality (export body))) = Some (r, tr)"
          "quality_encodes tr \<le> 10" "resize_encodes tr \<le> 7" "metadata_reads tr \<le> 1"
          "quality_encodes tr + resize_encodes tr \<le> 17"
          by blast
        then show ?thesis
          using generateImage_captured[OF l' res Inr, of lib] by (simp add: counts_Nil)
      qed
    qed
  qed
qed


section \<open>The orchestrator when every page call succeeds; the request of one pixel\<close>

lemma one_pixel_request_run:
  "generateImage one_pixel_codec working_pages one_pixel_request idle_browser =
     Some (Inl ''Expected positive integer for width but received 0 of type number'',
       \<lparr>launched = True, open_pages = 0,
        calls = [NewPage, Goto ''https://example.com'',
                 Screenshot Png None False
                   (Some \<lparr>clip_x = 0, clip_y = 0, clip_width = 1, clip_height = 1\<rparr>)
                   False Binary, Close]\<rparr>,
       [ToBuffer Png 100, ToBuffer Png 90, ToBuffer Png 80, ToBuffer Png 70, ToBuffer Png 60,
        ToBuffer Png 50, ToBuffer Png 40, ToBuffer Png 30, ToBuffer Png 20, ToBuffer Png 10,
        Metadata, ResizeToBuffer 0 0 Png 70])"
proof -
  have l: "load_page working_pages one_pixel_request idle_browser =
      (Inr [1, 2, 3], \<lparr>launched = True, open_pages = 1,
         calls = [NewPage, Goto ''https://example.com'']\<rparr>)"
    by (simp add: load_page_def page_op_def working_pages_def one_pixel_request_def
        idle_browser_def example_image_export_def)
  have s: "working_pages t k = Inr [1, 2, 3]" for t k by (simp add: working_pages_def)
  have e: "type (export one_pixel_request) = Png"
    "maxFileSize (export one_pixel_request) = 1"
    "quality (export one_pixel_request) = 100"
    "screenshot_call (export one_pixel_request) =
       Screenshot Png None False
         (Some \<lparr>clip_x = 0, clip_y = 0, clip_width = 1, clip_height = 1\<rparr>) False Binary"
    by (simp_all add: one_pixel_request_def example_image_export_def screenshot_call_def)
  show ?thesis
    unfolding generateImage_captured[OF l s s] e
    by (simp add: page_op_def s one_pixel_run)
qed

lemma one_pixel_parse:
  "safeParse (ImageRequestSchema sample_valid_url (Some one_pixel_body)) = Inr one_pixel_request"
  by (simp add: ImageRequestSchema_def one_pixel_body_def url_schema_def html_schema_def
      urlCustom_def sample_valid_url_def jget_def image_export_schema_def scale_schema_def
      type_schema_def quality_schema_def boolean_default_def clip_schema_def encoding_schema_def
      maxFileSize_schema_def viewport_schema_def min_max_def positive_def lit_01
      example_image_export_def one_pixel_request_def no_check_def)

lemma one_pixel_post:
  "post_image sample_valid_url one_pixel_codec working_pages one_pixel_body idle_browser =
     Some (Error_400 ''Expected positive integer for width but received 0 of type number'',
       \<lparr>launched = True, open_pages = 0,
        calls = [NewPage, Goto ''https://example.com'',
                 Screenshot Png None False
                   (Some \<lparr>clip_x = 0, clip_y = 0, clip_width = 1, clip_height = 1\<rparr>)
                   False Binary, Close]\<rparr>,
       [ToBuffer Png 100, ToBuffer Png 90, ToBuffer Png 80, ToBuffer Png 70, ToBuffer Png 60,
        ToBuffer Png 50, ToBuffer Png 40, ToBuffer Png 30, ToBuffer Png 20, ToBuffer Png 10,
        Metadata, ResizeToBuffer 0 0 Png 70])"
  by (simp add: post_image_def one_pixel_parse one_pixel_request_run)


lemma load_page_url_ok:
  assumes "launched st" "\<forall>t k. \<exists>b. pp t k = Inr b" "url body = Some u" "u \<noteq> []"
  shows "\<exists>x st1. load_page pp body st = (Inr x, st1) \<and>
           calls st1 = calls st @ NewPage #
             (case viewport (export body) of None \<Rightarrow> [] | Some v \<Rightarrow> [SetViewport v]) @ [Goto u]"
proof -
  obtain b0 where b0: "pp (calls st) NewPage = Inr b0" using assms(2) by blast
  show ?thesis
  proof (cases "viewport (export body)")
    case None
    obtain b2 where "pp (calls st @ [NewPage]) (Goto u) = Inr b2" using assms(2) by blast
    then show ?thesis using assms(1,3,4) b0 None by (simp add: load_page_def page_op_def)
  next
    case (Some v)
    obtain b1 where b1: "pp (calls st @ [NewPage]) (SetViewport v) = Inr b1"
      using assms(2) by blast
    obtain b2 where "pp (calls st @ [NewPage, SetViewport v]) (Goto u) = Inr b2"
      using assms(2) by blast
    then show ?thesis using assms(1,3,4) b0 b1 Some by (simp add: load_page_def page_op_def)
  qed
qed

lemma generatePdf_url_ok:
  assumes "launched st" "\<forall>t k. \<exists>b. pp t k = Inr b" "url body = Some u" "u \<noteq> []"
  shows "(\<exists>res. fst (generatePdf pp body st) = Inr res) \<and>
         new_calls st (snd (generatePdf pp body st)) =
           url_capture (viewport (export body)) u (PrintPdf (export body))"
proof -
  from load_page_url_ok[OF assms] obtain x st1 where
    l: "load_page pp body st = (Inr x, st1)"
    and c1: "calls st1 = calls st @ NewPage #
             (case viewport (export body) of None \<Rightarrow> [] | Some v \<Rightarrow> [SetViewport v]) @ [Goto u]"
    by blast
  obtain res where p: "pp (calls st1) (PrintPdf (export body)) = Inr res"
    using assms(2) by blast
  have g: "generatePdf pp body st =
      (Inr res, snd (page_op pp Close (snd (page_op pp (PrintPdf (export body)) st1))))"
    using l p by (simp add: generatePdf_def page_op_def)
  have "calls (snd (generatePdf pp body st)) =
      calls st @ url_capture (viewport (export body)) u (PrintPdf (export body))"
    by (simp add: g page_op_calls c1 url_capture_def)
  then show ?thesis using g by (simp add: new_calls_append)
qed

lemma generateImage_returns:
  assumes "quality (export body) \<le> 100"
  shows "\<exists>r st' tr. generateImage lib pp body st = Some (r, st', tr)"
proof -
  have "initial_quality (Some (quality (export body))) \<le> 100" using assms by simp
  from compressImage_bound[OF this] have
    "\<exists>r tr. compressImage lib res (type (export body)) (maxFileSize (export body))
        (Some (quality (export body))) = Some (r, tr)" for res
    by blast
  then show ?thesis
    unfolding generateImage_def
    by (auto split: prod.splits sum.splits)
qed

lemma generateImage_url_ok:
  assumes "launched st" "\<forall>t k. \<exists>b. pp t k = Inr b" "url body = Some u" "u \<noteq> []"
    and g: "generateImage lib pp body st = Some (r, st', tr)"
  shows "new_calls st st' =
           url_capture (viewport (export body)) u (screenshot_call (export body))"
proof -
  from load_page_url_ok[OF assms(1-4)] obtain x st1 where
    l: "load_page pp body st = (Inr x, st1)"
    and c1: "calls st1 = calls st @ NewPage #
             (case viewport (export body) of None \<Rightarrow> [] | Some v \<Rightarrow> [SetViewport v]) @ [Goto u]"
    by blast
  let ?shot = "screenshot_call (export body)"
  obtain res where p: "pp (calls st1) ?shot = Inr res" using assms(2) by blast
  obtain y where c: "pp (calls st1 @ [?shot]) Close = Inr y" using assms(2) by blast
  let ?st3 = "snd (page_op pp Close (snd (page_op pp ?shot st1)))"
  from generateImage_captured[OF l p c, of lib] g
  have "st' = ?st3"
    by (cases "compressImage lib res (type (export body)) (maxFileSize (export body))
                 (Some (quality (export body)))")
       (auto split: if_splits)
  moreover have "calls ?st3 = calls st @ url_capture (viewport (export body)) u ?shot"
    by (simp add: page_op_calls c1 url_capture_def)
  ultimately show ?thesis by (simp add: new_calls_append)
qed

lemma working_image_run:
  "generateImage oversize_codec working_pages example_image_request idle_browser =
     Some (Inr [1, 2, 3],
       \<lparr>launched = True, open_pages = 0,
        calls = [NewPage, Goto ''https://example.com'',
                 Screenshot Png None True None False Binary, Close]\<rparr>, [])"
  by (simp add: generateImage_def load_page_def page_op_def working_pages_def
      example_image_request_def idle_browser_def example_image_export_def screenshot_call_def)

lemma image_export_schema_default:
  "image_export_schema None = Parsed [] (Some example_image_export)"
  by (simp add: image_export_schema_def image_export_default_def jget_def scale_schema_def
      type_schema_def quality_schema_def boolean_default_def clip_schema_def
      encoding_schema_def maxFileSize_schema_def viewport_schema_def min_max_def positive_def
      lit_01 example_image_export_def)


section \<open>The claims\<close>




text \<open>
  C2 (as the code has it). Every invocation of the fitter whose initial quality is at most
  100 returns, with at most 10 re-encodes of the quality ladder, at most 7 of the scale
  ladder, at most 17 re-encodes in all, and at most one metadata read. A request that the
  image schema accepts has such a quality, so the same bounds hold for every run of
  \<^verbatim>\<open>generateImage\<close> on an accepted request.
\<close>

theorem C2_fitter_call_bound:
  "(initial_quality q \<le> 100 \<longrightarrow>
      (\<exists>r tr. compressImage lib buf fmt mb q = Some (r, tr) \<and>
         quality_encodes tr \<le> 10 \<and> resize_encodes tr \<le> 7 \<and> metadata_reads tr \<le> 1 \<and>
         quality_encodes tr + resize_encodes tr \<le> 17)) \<and>
   (safeParse (ImageRequestSchema valid_url body) = Inr req \<longrightarrow>
      (\<exists>r st' tr. generateImage lib pp req st = Some (r, st', tr) \<and>
         quality_encodes tr \<le> 10 \<and> resize_encodes tr \<le> 7 \<and> metadata_reads tr \<le> 1 \<and>
         quality_encodes tr + resize_encodes tr \<le> 17))"
proof (intro conjI impI)
  assume "initial_quality q \<le> 100"
  then show "\<exists>r tr. compressImage lib buf fmt mb q = Some (r, tr) \<and>
         quality_encodes tr \<le> 10 \<and> resize_encodes tr \<le> 7 \<and> metadata_reads tr \<le> 1 \<and>
         quality_encodes tr + resize_encodes tr \<le> 17"
    by (rule compressImage_bound)
next
  assume "safeParse (ImageRequestSchema valid_url body) = Inr req"
  from image_accepted_range[OF this]
  have "0 \<le> quality (export req)" "quality (export req) \<le> 100" by simp_all
  then show "\<exists>r st' tr. generateImage lib pp req st = Some (r, st', tr) \<and>
         quality_encodes tr \<le> 10 \<and> resize_encodes tr \<le> 7 \<and> metadata_reads tr \<le> 1 \<and>
         quality_encodes tr + resize_encodes tr \<le> 17"
    by (rule generateImage_bound)
qed

theorem C2_fitter_call_bound_witness:
  "\<exists>r tr. compressImage oversize_codec [7, 7, 7] Png 1 (Some 100) = Some (r, tr) \<and>
      quality_encodes tr \<le> 10 \<and> resize_encodes tr \<le> 7 \<and> metadata_reads tr \<le> 1 \<and>
      quality_encodes tr + resize_encodes tr \<le> 17"
  using C2_fitter_call_bound[where q = "Some 100" and lib = oversize_codec
      and buf = "[7, 7, 7]" and fmt = Png and mb = 1]
  by simp

text \<open>
  C2 as stated fails when the ladder starts at quality 100 and no encoding fits: the
  quality ladder then re-encodes 10 times (100, 90, \<dots>, 10), and 17 times in all.
\<close>

theorem C2_counterexample:
  "map_option (\<lambda>(r, tr). (quality_encodes tr, quality_encodes tr + resize_encodes tr))
     (compressImage oversize_codec [7, 7, 7] Png 1 (Some 100)) = Some (10, 17)"
  by (simp add: oversize_run quality_encodes_def resize_encodes_def)

text \<open>
  C3 (where the code departs from it). When neither ladder gives an encoding within the
  budget, the fitter is to return the bytes it was given and raise nothing; the last lines
  of \<^verbatim>\<open>compressImage\<close> say so (\<^verbatim>\<open>// Return original if we can't compress enough\<close>). For an
  image of one pixel that is over the budget they are not reached. Every encoding of the
  quality ladder is too large; the metadata gives the width 1 and the height 1; the first
  size of the resolution ladder is \<^verbatim>\<open>Math.floor(1 * 0.9)\<close>, that is 0 by 0; the codec refuses
  it, and the exception leaves \<^verbatim>\<open>compressImage\<close>. The route answers the accepted request
  with the error. (Where no codec call throws and every encoding is too large, the bytes
  given are returned: lemma \<open>compressImage_fruitless\<close>.)
\<close>

theorem C3_one_pixel_image_raises:
  "compressImage one_pixel_codec [1, 2, 3] Png 1 (Some 100) =
     Some (Inl ''Expected positive integer for width but received 0 of type number'',
       [ToBuffer Png 100, ToBuffer Png 90, ToBuffer Png 80, ToBuffer Png 70, ToBuffer Png 60,
        ToBuffer Png 50, ToBuffer Png 40, ToBuffer Png 30, ToBuffer Png 20, ToBuffer Png 10,
        Metadata, ResizeToBuffer 0 0 Png 70]) \<and>
   post_image sample_valid_url one_pixel_codec working_pages one_pixel_body idle_browser =
     Some (Error_400 ''Expected positive integer for width but received 0 of type number'',
       \<lparr>launched = True, open_pages = 0,
        calls = [NewPage, Goto ''https://example.com'',
                 Screenshot Png None False
                   (Some \<lparr>clip_x = 0, clip_y = 0, clip_width = 1, clip_height = 1\<rparr>)
                   False Binary, Close]\<rparr>,
       [ToBuffer Png 100, ToBuffer Png 90, ToBuffer Png 80, ToBuffer Png 70, ToBuffer Png 60,
        ToBuffer Png 50, ToBuffer Png 40, ToBuffer Png 30, ToBuffer Png 20, ToBuffer Png 10,
        Metadata, ResizeToBuffer 0 0 Png 70])"
  by (simp add: one_pixel_run one_pixel_post)

text \<open>
  C4. When the page is loaded, the screenshot returns bytes whose length is at most
  \<^verbatim>\<open>maxFileSize\<close>, and the page closes, \<^verbatim>\<open>generateImage\<close> returns exactly these bytes and
  calls the codec not once.
\<close>

theorem C4_within_budget_untouched:
  assumes "load_page pp body st = (Inr x, st1)"
    and "pp (calls st1) (screenshot_call (export body)) = Inr res"
    and "pp (calls st1 @ [screenshot_call (export body)]) Close = Inr y"
    and "of_nat (length res) \<le> maxFileSize (export body)"
  shows "\<exists>st'. generateImage lib pp body st = Some (Inr res, st', [])"
  using generateImage_captured[OF assms(1-3), of lib] assms(4) by simp


theorem C4_within_budget_untouched_witness:
  "\<exists>st'. generateImage oversize_codec working_pages example_image_request idle_browser =
     Some (Inr [1, 2, 3], st', [])"
proof (rule C4_within_budget_untouched)
  show "load_page working_pages example_image_request idle_browser =
      (Inr [1, 2, 3], \<lparr>launched = True, open_pages = 1,
        calls = [NewPage, Goto ''https://example.com'']\<rparr>)"
    by (simp add: load_page_def page_op_def working_pages_def idle_browser_def
        example_image_request_def example_image_export_def)
  show "working_pages (calls \<lparr>launched = True, open_pages = 1,
        calls = [NewPage, Goto ''https://example.com'']\<rparr>)
      (screenshot_call (export example_image_request)) = Inr [1, 2, 3]"
    by (simp add: working_pages_def)
  show "working_pages (calls \<lparr>launched = True, open_pages = 1,
        calls = [NewPage, Goto ''https://example.com'']\<rparr> @
        [screenshot_call (export example_image_request)]) Close = Inr [1, 2, 3]"
    by (simp add: working_pages_def)
  show "of_nat (length [1, 2, 3 :: 8 word]) \<le> maxFileSize (export example_image_request)"
    by (simp add: example_image_request_def example_image_export_def)
qed

text \<open>
  C5 (as the code has it). For an initial quality \<open>q\<close> that is a double, not 0 and at most
  100, the quality ladder re-encodes at \<open>q, q - 10, q - 20, \<dots>\<close> for as long as the value is
  at least 10: it starts at \<open>q\<close> when \<open>10 \<le> q\<close> and makes no step when \<open>q < 10\<close>. It returns
  the first encoding that fits, after exactly the calls up to it. With no quality given the
  ladder is 100, 90, \<dots>, 10.
\<close>

theorem C5_quality_ladder:
  assumes "rnd q = q" "q \<noteq> 0" "q \<le> 100"
  shows "compressImage lib buf fmt mb (Some q) =
           (case try_ladder (encode lib buf fmt) (ToBuffer fmt) mb (quality_steps q) [] of
              (Return result, tr) \<Rightarrow> Some (Inr result, tr)
            | (Throw e, tr) \<Rightarrow> Some (Inl e, tr)
            | (Fallthrough, tr) \<Rightarrow> resize_phase lib buf fmt mb tr) \<and>
         (10 \<le> q \<longrightarrow> quality_steps q = q # quality_steps (q - 10)) \<and>
         (q < 10 \<longrightarrow> quality_steps q = []) \<and>
         (quality_steps q = pre @ v # post \<and>
          (\<forall>v' \<in> set pre. fruitless lib buf mb (ToBuffer fmt v')) \<and>
          encode lib buf fmt v = Inr r \<and> of_nat (length r) \<le> mb \<longrightarrow>
            compressImage lib buf fmt mb (Some q) =
              Some (Inr r, map (ToBuffer fmt) pre @ [ToBuffer fmt v])) \<and>
         compressImage lib buf fmt mb None = compressImage lib buf fmt mb (Some 100) \<and>
         quality_steps 100 = [100, 90, 80, 70, 60, 50, 40, 30, 20, 10]"
proof -
  have ladder: "compressImage lib buf fmt mb (Some q) =
           (case try_ladder (encode lib buf fmt) (ToBuffer fmt) mb (quality_steps q) [] of
              (Return result, tr) \<Rightarrow> Some (Inr result, tr)
            | (Throw e, tr) \<Rightarrow> Some (Inl e, tr)
            | (Fallthrough, tr) \<Rightarrow> resize_phase lib buf fmt mb tr)"
    using assms
    by (simp add: compressImage_def quality_loop_ladder split: prod.splits loop_exit.splits)
  have first: "compressImage lib buf fmt mb (Some q) =
              Some (Inr r, map (ToBuffer fmt) pre @ [ToBuffer fmt v])"
    if "quality_steps q = pre @ v # post \<and>
          (\<forall>v' \<in> set pre. fruitless lib buf mb (ToBuffer fmt v')) \<and>
          encode lib buf fmt v = Inr r \<and> of_nat (length r) \<le> mb"
  proof -
    from that have "\<forall>c \<in> set pre. \<exists>r. encode lib buf fmt c = Inr r \<and> mb < of_nat (length r)"
      by (simp add: fruitless_encode del: fruitless.simps)
    from try_ladder_first_fit[of pre "encode lib buf fmt" mb v r "ToBuffer fmt" post "[]", OF this]
      that
    show ?thesis by (simp add: ladder)
  qed
  have "compressImage lib buf fmt mb None = compressImage lib buf fmt mb (Some 100)"
    by (simp add: compressImage_def)
  then show ?thesis
    using ladder first quality_steps_ge[of q] quality_steps_less[of q] quality_steps_100
    by blast
qed

theorem C5_quality_ladder_witness:
  "compressImage graded_codec [7, 7, 7] Png 8 (Some 100) =
     Some (Inr [0, 0, 0, 0, 0, 0, 0, 0], [ToBuffer Png 100, ToBuffer Png 90, ToBuffer Png 80])"
proof -
  have e: "encode graded_codec [7, 7, 7] Png 80 = Inr [0, 0, 0, 0, 0, 0, 0, 0]"
    by (simp add: graded_codec_def numeral_eq_Suc)
  have f: "\<forall>v' \<in> set [100, 90]. fruitless graded_codec [7, 7, 7] 8 (ToBuffer Png v')"
    by (simp add: graded_codec_def)
  have "(100::rat) \<noteq> 0" "(100::rat) \<le> 100" by simp_all
  note ladder = C5_quality_ladder[OF rnd_100 this, where lib = graded_codec
      and buf = "[7, 7, 7]" and fmt = Png and mb = 8 and pre = "[100, 90]" and v = 80
      and post = "[70, 60, 50, 40, 30, 20, 10]" and r = "[0, 0, 0, 0, 0, 0, 0, 0]"]
  from ladder[THEN conjunct2, THEN conjunct2, THEN conjunct2, THEN conjunct1] e f
  show ?thesis by (simp add: quality_steps_100 del: fruitless.simps)
qed

text \<open>
  C5 as stated fails for the initial quality 5: the encoding at quality 5 would fit the
  budget, but the ladder makes no step at all; the result comes from the first resize.
\<close>

theorem C5_counterexample:
  "encode fitting_codec [7, 7, 7] Png 5 = Inr [1] \<and>
   compressImage fitting_codec [7, 7, 7] Png 1 (Some 5) =
     Some (Inr [2], [Metadata, ResizeToBuffer 90 90 Png 70])"
proof -
  have q: "quality_loop fitting_codec [7, 7, 7] Png 1 5 [] = Some (Fallthrough, [])"
    by (simp add: quality_loop_exit)
  have md: "metadata fitting_codec buf = Inr (Some 100, Some 100)" for buf
    by (simp add: fitting_codec_def)
  have small: "(100::nat) < 2 ^ 47" by simp
  have s: "scale_loop fitting_codec [7, 7, 7] Png 1 100 100 (js_lit (9 / 10)) tr =
      Some (Return [2], tr @ [ResizeToBuffer 90 90 Png 70])" for tr
    unfolding scale_loop_doubles scale_sizes[OF small small] scale_steps_100
    by (simp add: fitting_codec_def)
  have "compressImage fitting_codec [7, 7, 7] Png 1 (Some 5) =
     Some (Inr [2], [Metadata, ResizeToBuffer 90 90 Png 70])"
    unfolding compressImage_def initial_quality.simps
    by (simp add: q resize_phase_def md s)
  then show ?thesis by (simp add: fitting_codec_def)
qed

text \<open>
  C6. A request that either schema accepts has its scale in \<open>[0.1, 2]\<close> and its quality in
  \<open>[0, 100]\<close>, defaults included; a body whose \<^verbatim>\<open>export.scale\<close> or \<^verbatim>\<open>export.quality\<close> is a
  number outside its interval is rejected by both schemas: no request is produced, so
  nothing is clamped.
\<close>

theorem C6_scale_and_quality_ranges:
  "(safeParse (PdfRequestSchema valid_url body) = Inr reqP \<longrightarrow>
      1 / 10 \<le> scale (export reqP) \<and> scale (export reqP) \<le> 2 \<and>
      0 \<le> quality (export reqP) \<and> quality (export reqP) \<le> 100) \<and>
   (safeParse (ImageRequestSchema valid_url body) = Inr reqI \<longrightarrow>
      1 / 10 \<le> scale (export reqI) \<and> scale (export reqI) \<le> 2 \<and>
      0 \<le> quality (export reqI) \<and> quality (export reqI) \<le> 100) \<and>
   (jget kvs ''export'' = Some (JObject ekvs) \<and>
    ((\<exists>x. jget ekvs ''scale'' = Some (JNumber x) \<and> (x < 1 / 10 \<or> 2 < x)) \<or>
     (\<exists>x. jget ekvs ''quality'' = Some (JNumber x) \<and> (x < 0 \<or> 100 < x))) \<longrightarrow>
      (\<exists>rej. safeParse (PdfRequestSchema valid_url (Some (JObject kvs))) = Inl rej) \<and>
      (\<exists>rej. safeParse (ImageRequestSchema valid_url (Some (JObject kvs))) = Inl rej))"
  using pdf_accepted_range[of valid_url body reqP] image_accepted_range[of valid_url body reqI]
    pdf_out_of_range_rejected[of kvs ekvs valid_url]
    image_out_of_range_rejected[of kvs ekvs valid_url]
  by blast

theorem C6_scale_and_quality_ranges_witness:
  "1 / 10 \<le> scale example_pdf_export \<and> scale example_pdf_export \<le> 2 \<and>
   0 \<le> quality example_pdf_export \<and> quality example_pdf_export \<le> 100 \<and>
   (\<exists>rej. safeParse (PdfRequestSchema sample_valid_url (Some scale_three_body)) = Inl rej)"
proof -
  have k: "jget [(''url'', JString ''https://example.com''),
                 (''export'', JObject [(''scale'', JNumber 3)])] ''export'' =
             Some (JObject [(''scale'', JNumber 3)])"
    "jget [(''scale'', JNumber 3)] ''scale'' = Some (JNumber 3)"
    by (simp_all add: jget_def)
  from C6_scale_and_quality_ranges[where valid_url = sample_valid_url
      and body = "Some url_only_body"
      and reqP = "\<lparr>url = Some ''https://example.com'', html = None,
                     export = example_pdf_export\<rparr>"
      and kvs = "[(''url'', JString ''https://example.com''),
                  (''export'', JObject [(''scale'', JNumber 3)])]"
      and ekvs = "[(''scale'', JNumber 3)]"]
    url_only_parse k
  show ?thesis by (simp add: scale_three_body_def)
qed

text \<open>
  C7. When the metadata gives both dimensions (positive, and below \<open>2^47\<close>, which every
  image is), the resolution ladder tries the sizes \<open>floor (width * k / 10)\<close> by
  \<open>floor (height * k / 10)\<close> for \<open>k = 9, 8, \<dots>, 3\<close> in this order, each encoded at quality
  70. It returns the first encoding that fits, after exactly the calls up to it; with none,
  it returns the original bytes.
\<close>

theorem C7_resolution_ladder:
  assumes "metadata lib buf = Inr (Some w, Some h)"
    and "0 < w" "0 < h" "w < 2 ^ 47" "h < 2 ^ 47"
  shows "resize_phase lib buf fmt mb tr =
           (case try_ladder (\<lambda>(nw, nh). resize_encode lib buf nw nh fmt 70)
                   (\<lambda>(nw, nh). ResizeToBuffer nw nh fmt 70) mb
                   (scale_steps w h) (tr @ [Metadata]) of
              (Return result, tr') \<Rightarrow> Some (Inr result, tr')
            | (Throw e, tr') \<Rightarrow> Some (Inl e, tr')
            | (Fallthrough, tr') \<Rightarrow> Some (Inr buf, tr')) \<and>
         (scale_steps w h = pre @ (nw, nh) # post \<and>
          (\<forall>(nw', nh') \<in> set pre. fruitless lib buf mb (ResizeToBuffer nw' nh' fmt 70)) \<and>
          resize_encode lib buf nw nh fmt 70 = Inr r \<and> of_nat (length r) \<le> mb \<longrightarrow>
            resize_phase lib buf fmt mb tr =
              Some (Inr r, tr @ Metadata # map (\<lambda>(nw', nh'). ResizeToBuffer nw' nh' fmt 70) pre @
                             [ResizeToBuffer nw nh fmt 70]))"
proof -
  let ?enc = "\<lambda>(nw, nh). resize_encode lib buf nw nh fmt 70"
  let ?call = "\<lambda>(nw, nh). ResizeToBuffer nw nh fmt 70"
  have ladder: "resize_phase lib buf fmt mb tr =
           (case try_ladder ?enc ?call mb (scale_steps w h) (tr @ [Metadata]) of
              (Return result, tr') \<Rightarrow> Some (Inr result, tr')
            | (Throw e, tr') \<Rightarrow> Some (Inl e, tr')
            | (Fallthrough, tr') \<Rightarrow> Some (Inr buf, tr'))"
    using assms(1-3)
    by (simp add: resize_phase_def scale_loop_doubles scale_sizes[OF assms(4,5)]
        split: prod.splits loop_exit.splits del: list.map)
  have first: "resize_phase lib buf fmt mb tr =
              Some (Inr r, tr @ Metadata # map ?call pre @ [ResizeToBuffer nw nh fmt 70])"
    if "scale_steps w h = pre @ (nw, nh) # post \<and>
          (\<forall>(nw', nh') \<in> set pre. fruitless lib buf mb (ResizeToBuffer nw' nh' fmt 70)) \<and>
          resize_encode lib buf nw nh fmt 70 = Inr r \<and> of_nat (length r) \<le> mb"
  proof -
    from that have "\<forall>c \<in> set pre. \<exists>r. ?enc c = Inr r \<and> mb < of_nat (length r)"
      by (auto simp: fruitless_resize simp del: fruitless.simps)
    from try_ladder_first_fit[of pre ?enc mb "(nw, nh)" r ?call post "tr @ [Metadata]", OF this]
      that
    show ?thesis by (simp add: ladder)
  qed
  show ?thesis using ladder first by blast
qed

theorem C7_resolution_ladder_witness:
  "resize_phase graded_codec [7, 7, 7] Png 7 [] =
     Some (Inr [0, 0, 0, 0, 0, 0, 0],
       [Metadata, ResizeToBuffer 90 90 Png 70, ResizeToBuffer 80 80 Png 70,
        ResizeToBuffer 70 70 Png 70])"
proof -
  have m: "metadata graded_codec [7, 7, 7] = Inr (Some 100, Some 100)"
    by (simp add: graded_codec_def)
  have e: "resize_encode graded_codec [7, 7, 7] 70 70 Png 70 = Inr [0, 0, 0, 0, 0, 0, 0]"
    by (simp add: graded_codec_def numeral_eq_Suc)
  have f: "\<forall>(nw', nh') \<in> set [(90, 90), (80, 80)].
             fruitless graded_codec [7, 7, 7] 7 (ResizeToBuffer nw' nh' Png 70)"
    by (simp add: graded_codec_def)
  have b: "(0::nat) < 100" "(100::nat) < 2 ^ 47" by simp_all
  note ladder = C7_resolution_ladder[OF m b(1) b(1) b(2) b(2), where fmt = Png and mb = 7
      and tr = "[]" and pre = "[(90, 90), (80, 80)]" and nw = 70 and nh = 70
      and post = "[(60, 60), (50, 50), (40, 40), (30, 30)]" and r = "[0, 0, 0, 0, 0, 0, 0]"]
  from ladder[THEN conjunct2] e f
  show ?thesis by (simp add: scale_steps_100 del: fruitless.simps)
qed

text \<open>
  C8. For a request whose url is present and not empty, whatever its html, neither
  orchestrator ever sets the page content from the html, and a run that succeeds has
  navigated to the url. When the browser is launched and no page call throws, the calls of
  \<^verbatim>\<open>generatePdf\<close>, which then succeeds, and of \<^verbatim>\<open>generateImage\<close> are exactly: open the page,
  set the viewport when one is given, navigate to the url, capture, close.
  \<^verbatim>\<open>generateImage\<close> returns for every request whose quality is at most 100. A body with a
  valid url and a non-empty html is accepted by both schemas whenever its export options
  are.
\<close>

theorem C8_url_takes_precedence:
  assumes "url bodyP = Some u" "url bodyI = Some u" "u \<noteq> []"
  shows "SetContent c \<notin> set (new_calls st (snd (generatePdf pp bodyP st))) \<and>
         (fst (generatePdf pp bodyP st) = Inr res \<longrightarrow>
            Goto u \<in> set (new_calls st (snd (generatePdf pp bodyP st)))) \<and>
         (launched st \<and> (\<forall>t k. \<exists>b. pp t k = Inr b) \<longrightarrow>
            (\<exists>pdf. fst (generatePdf pp bodyP st) = Inr pdf) \<and>
            new_calls st (snd (generatePdf pp bodyP st)) =
              url_capture (viewport (export bodyP)) u (PrintPdf (export bodyP))) \<and>
         (generateImage lib pp bodyI st = Some (r, st', tr) \<longrightarrow>
            SetContent c \<notin> set (new_calls st st') \<and>
            (r = Inr res \<longrightarrow> Goto u \<in> set (new_calls st st')) \<and>
            (launched st \<and> (\<forall>t k. \<exists>b. pp t k = Inr b) \<longrightarrow>
               new_calls st st' =
                 url_capture (viewport (export bodyI)) u (screenshot_call (export bodyI)))) \<and>
         (quality (export bodyI) \<le> 100 \<longrightarrow>
            (\<exists>ri sti tri. generateImage lib pp bodyI st = Some (ri, sti, tri) \<and>
               SetContent c \<notin> set (new_calls st sti) \<and>
               (launched st \<and> (\<forall>t k. \<exists>b. pp t k = Inr b) \<longrightarrow>
                  new_calls st sti =
                    url_capture (viewport (export bodyI)) u (screenshot_call (export bodyI))))) \<and>
         (valid_url u \<and> h \<noteq> [] \<and>
          jget kvs ''url'' = Some (JString u) \<and> jget kvs ''html'' = Some (JString h) \<longrightarrow>
            (pdf_export_schema (jget kvs ''export'') = Parsed [] (Some eP) \<longrightarrow>
               safeParse (PdfRequestSchema valid_url (Some (JObject kvs))) =
                 Inr \<lparr>url = Some u, html = Some h, export = eP\<rparr>) \<and>
            (image_export_schema (jget kvs ''export'') = Parsed [] (Some eI) \<longrightarrow>
               safeParse (ImageRequestSchema valid_url (Some (JObject kvs))) =
                 Inr \<lparr>url = Some u, html = Some h, export = eI\<rparr>))"
proof -
  obtain rp stp where gp: "generatePdf pp bodyP st = (rp, stp)"
    by (cases "generatePdf pp bodyP st")
  from generatePdf_url[OF assms(1,3) gp] obtain cs where
    cs: "calls stp = calls st @ cs" "\<forall>h. SetContent h \<notin> set cs"
      "(\<exists>res. rp = Inr res) \<longrightarrow> Goto u \<in> set cs"
    by blast
  have a: "SetContent c \<notin> set (new_calls st (snd (generatePdf pp bodyP st)))"
    using cs by (simp add: gp new_calls_append)
  have b: "fst (generatePdf pp bodyP st) = Inr res \<longrightarrow>
      Goto u \<in> set (new_calls st (snd (generatePdf pp bodyP st)))"
    using cs by (simp add: gp new_calls_append)
  have b': "launched st \<and> (\<forall>t k. \<exists>b. pp t k = Inr b) \<longrightarrow>
            (\<exists>pdf. fst (generatePdf pp bodyP st) = Inr pdf) \<and>
            new_calls st (snd (generatePdf pp bodyP st)) =
              url_capture (viewport (export bodyP)) u (PrintPdf (export bodyP))"
    using generatePdf_url_ok[of st pp bodyP u] assms(1,3) by blast
  have img: "SetContent c \<notin> set (new_calls st s') \<and>
            (r' = Inr res \<longrightarrow> Goto u \<in> set (new_calls st s')) \<and>
            (launched st \<and> (\<forall>t k. \<exists>b. pp t k = Inr b) \<longrightarrow>
               new_calls st s' =
                 url_capture (viewport (export bodyI)) u (screenshot_call (export bodyI)))"
    if g: "generateImage lib pp bodyI st = Some (r', s', t')" for r' s' t'
  proof -
    from generateImage_url[OF assms(2,3) g] have
      "SetContent c \<notin> set (new_calls st s') \<and> (r' = Inr res \<longrightarrow> Goto u \<in> set (new_calls st s'))"
      by (auto simp: new_calls_append)
    moreover have "launched st \<and> (\<forall>t k. \<exists>b. pp t k = Inr b) \<longrightarrow>
               new_calls st s' =
                 url_capture (viewport (export bodyI)) u (screenshot_call (export bodyI))"
      using generateImage_url_ok[of st pp bodyI u lib r' s' t'] assms(2,3) g by blast
    ultimately show ?thesis by blast
  qed
  have c: "generateImage lib pp bodyI st = Some (r, st', tr) \<longrightarrow>
            SetContent c \<notin> set (new_calls st st') \<and>
            (r = Inr res \<longrightarrow> Goto u \<in> set (new_calls st st')) \<and>
            (launched st \<and> (\<forall>t k. \<exists>b. pp t k = Inr b) \<longrightarrow>
               new_calls st st' =
                 url_capture (viewport (export bodyI)) u (screenshot_call (export bodyI)))"
    using img by blast
  have d: "quality (export bodyI) \<le> 100 \<longrightarrow>
            (\<exists>ri sti tri. generateImage lib pp bodyI st = Some (ri, sti, tri) \<and>
               SetContent c \<notin> set (new_calls st sti) \<and>
               (launched st \<and> (\<forall>t k. \<exists>b. pp t k = Inr b) \<longrightarrow>
                  new_calls st sti =
                    url_capture (viewport (export bodyI)) u (screenshot_call (export bodyI))))"
  proof
    assume "quality (export bodyI) \<le> 100"
    from generateImage_returns[OF this, of lib pp st] obtain ri sti tri where
      g: "generateImage lib pp bodyI st = Some (ri, sti, tri)" by blast
    from img[OF g] g show "\<exists>ri sti tri. generateImage lib pp bodyI st = Some (ri, sti, tri) \<and>
               SetContent c \<notin> set (new_calls st sti) \<and>
               (launched st \<and> (\<forall>t k. \<exists>b. pp t k = Inr b) \<longrightarrow>
                  new_calls st sti =
                    url_capture (viewport (export bodyI)) u (screenshot_call (export bodyI)))"
      by blast
  qed
  have e: "valid_url u \<and> h \<noteq> [] \<and>
          jget kvs ''url'' = Some (JString u) \<and> jget kvs ''html'' = Some (JString h) \<longrightarrow>
            (pdf_export_schema (jget kvs ''export'') = Parsed [] (Some eP) \<longrightarrow>
               safeParse (PdfRequestSchema valid_url (Some (JObject kvs))) =
                 Inr \<lparr>url = Some u, html = Some h, export = eP\<rparr>) \<and>
            (image_export_schema (jget kvs ''export'') = Parsed [] (Some eI) \<longrightarrow>
               safeParse (ImageRequestSchema valid_url (Some (JObject kvs))) =
                 Inr \<lparr>url = Some u, html = Some h, export = eI\<rparr>)"
    using PdfRequestSchema_both[of valid_url u h kvs eP]
      ImageRequestSchema_both[of valid_url u h kvs eI] assms(3)
    by blast
  from a b b' c d e show ?thesis by (intro conjI)
qed

theorem C8_url_takes_precedence_witness:
  "generatePdf working_pages example_pdf_request idle_browser =
     (Inr [1, 2, 3],
      \<lparr>launched = True, open_pages = 0,
       calls = [NewPage, Goto ''https://example.com'', PrintPdf example_pdf_export, Close]\<rparr>) \<and>
   new_calls idle_browser (snd (generatePdf working_pages example_pdf_request idle_browser)) =
     [NewPage, Goto ''https://example.com'', PrintPdf example_pdf_export, Close] \<and>
   SetContent ''<h1>hi</h1>'' \<notin>
     set (new_calls idle_browser (snd (generatePdf working_pages example_pdf_request idle_browser))) \<and>
   Goto ''https://example.com'' \<in>
     set (new_calls idle_browser (snd (generatePdf working_pages example_pdf_request idle_browser))) \<and>
   generateImage oversize_codec working_pages example_image_request idle_browser =
     Some (Inr [1, 2, 3],
       \<lparr>launched = True, open_pages = 0,
        calls = [NewPage, Goto ''https://example.com'',
                 Screenshot Png None True None False Binary, Close]\<rparr>, []) \<and>
   new_calls idle_browser
       \<lparr>launched = True, open_pages = 0,
        calls = [NewPage, Goto ''https://example.com'',
                 Screenshot Png None True None False Binary, Close]\<rparr> =
     [NewPage, Goto ''https://example.com'', Screenshot Png None True None False Binary,
      Close] \<and>
   SetContent ''<h1>hi</h1>'' \<notin>
     set (new_calls idle_browser
       \<lparr>launched = True, open_pages = 0,
        calls = [NewPage, Goto ''https://example.com'',
                 Screenshot Png None True None False Binary, Close]\<rparr>) \<and>
   Goto ''https://example.com'' \<in>
     set (new_calls idle_browser
       \<lparr>launched = True, open_pages = 0,
        calls = [NewPage, Goto ''https://example.com'',
                 Screenshot Png None True None False Binary, Close]\<rparr>) \<and>
   safeParse (PdfRequestSchema sample_valid_url
     (Some (JObject [(''url'', JString ''https://example.com''),
                     (''html'', JString ''<h1>hi</h1>'')]))) = Inr example_pdf_request \<and>
   safeParse (ImageRequestSchema sample_valid_url
     (Some (JObject [(''url'', JString ''https://example.com''),
                     (''html'', JString ''<h1>hi</h1>'')]))) = Inr example_image_request"
proof -
  have u: "url example_pdf_request = Some ''https://example.com''"
    "url example_image_request = Some ''https://example.com''"
    "''https://example.com'' \<noteq> []"
    by (simp_all add: example_pdf_request_def example_image_request_def)
  have k: "jget [(''url'', JString ''https://example.com''), (''html'', JString ''<h1>hi</h1>'')]
             ''url'' = Some (JString ''https://example.com'')"
    "jget [(''url'', JString ''https://example.com''), (''html'', JString ''<h1>hi</h1>'')]
             ''html'' = Some (JString ''<h1>hi</h1>'')"
    "jget [(''url'', JString ''https://example.com''), (''html'', JString ''<h1>hi</h1>'')]
             ''export'' = None"
    by (simp_all add: jget_def)
  have v: "sample_valid_url ''https://example.com''" by (simp add: sample_valid_url_def)
  have w: "launched idle_browser" "\<forall>t k. \<exists>b. working_pages t k = Inr b"
    by (simp_all add: idle_browser_def working_pages_def)
  have x: "viewport (export example_pdf_request) = None"
    "export example_pdf_request = example_pdf_export"
    "viewport (export example_image_request) = None"
    "screenshot_call (export example_image_request) = Screenshot Png None True None False Binary"
    "quality (export example_image_request) \<le> 100"
    "viewport example_pdf_export = None"
    by (simp_all add: example_pdf_request_def example_image_request_def example_pdf_export_def
        example_image_export_def screenshot_call_def)
  have f: "\<lparr>url = Some ''https://example.com'', html = Some ''<h1>hi</h1>'',
             export = example_pdf_export\<rparr> = example_pdf_request"
    "\<lparr>url = Some ''https://example.com'', html = Some ''<h1>hi</h1>'',
             export = example_image_export\<rparr> = example_image_request"
    by (simp_all add: example_pdf_request_def example_image_request_def)
  from C8_url_takes_precedence[OF u, where pp = working_pages and st = idle_browser
      and lib = oversize_codec
      and c = "''<h1>hi</h1>''" and res = "[1, 2, 3]" and valid_url = sample_valid_url
      and h = "''<h1>hi</h1>''"
      and kvs = "[(''url'', JString ''https://example.com''), (''html'', JString ''<h1>hi</h1>'')]"
      and eP = example_pdf_export and eI = example_image_export
      and r = "Inr [1, 2, 3]" and tr = "[]"
      and st' = "\<lparr>launched = True, open_pages = 0,
        calls = [NewPage, Goto ''https://example.com'',
                 Screenshot Png None True None False Binary, Close]\<rparr>"]
    working_pdf_run working_image_run
  show ?thesis
    by (simp add: k v w x f pdf_export_schema_default image_export_schema_default
        url_capture_def)
qed

text \<open>
  C9 (as the code has it). A body with neither url nor html is rejected by both schemas,
  and the route answers without touching the browser. The rejection ends with the message
  "Either url or html must be provided" whenever the export options do not abort the
  parse; for the body \<open>{}\<close> it is the only issue.
\<close>

theorem C9_missing_target_rejected:
  assumes "\<not> has_key body ''url''" "\<not> has_key body ''html''"
  shows "(\<exists>rej. safeParse (PdfRequestSchema valid_url (Some body)) = Inl rej \<and>
            post_pdf valid_url pp body st = (Validation_failed rej, st)) \<and>
         (\<exists>rej. safeParse (ImageRequestSchema valid_url (Some body)) = Inl rej \<and>
            post_image valid_url lib pp body st = Some (Validation_failed rej, st, [])) \<and>
         (\<forall>kvs iss e. body = JObject kvs \<and>
            pdf_export_schema (jget kvs ''export'') = Parsed iss (Some e) \<longrightarrow>
            safeParse (PdfRequestSchema valid_url (Some body)) =
              Inl (Issues (iss @ [Custom [] ''Either url or html must be provided'']))) \<and>
         (\<forall>kvs iss e. body = JObject kvs \<and>
            image_export_schema (jget kvs ''export'') = Parsed iss (Some e) \<longrightarrow>
            safeParse (ImageRequestSchema valid_url (Some body)) =
              Inl (Issues (iss @ [Custom [] ''Either url or html must be provided''])))"
proof (intro conjI allI impI)
  from no_target_rejected(1)[OF assms] obtain rej where
    "safeParse (PdfRequestSchema valid_url (Some body)) = Inl rej" by blast
  then show "\<exists>rej. safeParse (PdfRequestSchema valid_url (Some body)) = Inl rej \<and>
            post_pdf valid_url pp body st = (Validation_failed rej, st)"
    by (simp add: post_pdf_def)
next
  from no_target_rejected(2)[OF assms] obtain rej where
    "safeParse (ImageRequestSchema valid_url (Some body)) = Inl rej" by blast
  then show "\<exists>rej. safeParse (ImageRequestSchema valid_url (Some body)) = Inl rej \<and>
            post_image valid_url lib pp body st = Some (Validation_failed rej, st, [])"
    by (simp add: post_image_def)
next
  fix kvs iss e
  assume a: "body = JObject kvs \<and> pdf_export_schema (jget kvs ''export'') = Parsed iss (Some e)"
  then have k: "jget kvs ''url'' = None" "jget kvs ''html'' = None"
    using assms by (simp_all add: has_key_def)
  show "safeParse (PdfRequestSchema valid_url (Some body)) =
              Inl (Issues (iss @ [Custom [] ''Either url or html must be provided'']))"
    using a by (simp add: PdfRequestSchema_no_target[OF k] safeParse_issue)
next
  fix kvs iss e
  assume a: "body = JObject kvs \<and> image_export_schema (jget kvs ''export'') = Parsed iss (Some e)"
  then have k: "jget kvs ''url'' = None" "jget kvs ''html'' = None"
    using assms by (simp_all add: has_key_def)
  show "safeParse (ImageRequestSchema valid_url (Some body)) =
              Inl (Issues (iss @ [Custom [] ''Either url or html must be provided'']))"
    using a by (simp add: ImageRequestSchema_no_target[OF k] safeParse_issue)
qed

theorem C9_missing_target_rejected_witness:
  "safeParse (PdfRequestSchema sample_valid_url (Some (JObject []))) =
     Inl (Issues [Custom [] ''Either url or html must be provided'']) \<and>
   (\<exists>rej. post_pdf sample_valid_url working_pages (JObject []) idle_browser =
      (Validation_failed rej, idle_browser))"
proof -
  have k: "\<not> has_key (JObject []) ''url''" "\<not> has_key (JObject []) ''html''"
    by (simp_all add: has_key_def jget_def)
  have e: "pdf_export_schema (jget [] ''export'') = Parsed [] (Some example_pdf_export)"
    by (simp add: jget_def pdf_export_schema_default)
  from C9_missing_target_rejected[OF k, of sample_valid_url working_pages idle_browser] e
  show ?thesis by fastforce
qed

text \<open>
  C9 as stated fails on the PDF route for the body \<open>{"export": {}}\<close>: the margin is
  required, so the export options abort the parse, the refinement is skipped, and the only
  issue is the missing margin.
\<close>

theorem C9_counterexample:
  "safeParse (PdfRequestSchema sample_valid_url (Some (JObject [(''export'', JObject [])]))) =
     Inl (Issues [Invalid_type [''export'', ''margin'']])"
  by (simp add: PdfRequestSchema_def url_schema_def html_schema_def jget_def
      pdf_export_schema_def scale_schema_def type_schema_def quality_schema_def
      boolean_default_def clip_schema_def encoding_schema_def margin_schema_def
      viewport_schema_def min_max_def lit_01)

text \<open>
  C10. The fitter treats the quality 0 as an absent quality: its first call encodes at
  quality 100. The image schema accepts the quality 0, and \<^verbatim>\<open>generateImage\<close> passes it on:
  with an accepted quality of 0 and a screenshot over the budget, the first codec call is at
  quality 100.
\<close>

theorem C10_quality_zero_starts_at_100:
  "compressImage lib buf fmt mb (Some 0) = compressImage lib buf fmt mb None \<and>
   (\<exists>r tr. compressImage lib buf fmt mb (Some 0) = Some (r, ToBuffer fmt 100 # tr)) \<and>
   (\<exists>req. safeParse (ImageRequestSchema sample_valid_url (Some quality_zero_body)) = Inr req \<and>
      quality (export req) = 0) \<and>
   (quality (export body) = 0 \<and> load_page pp body st = (Inr x, stl) \<and>
    pp (calls stl) (screenshot_call (export body)) = Inr res \<and>
    pp (calls stl @ [screenshot_call (export body)]) Close = Inr y \<and>
    maxFileSize (export body) < of_nat (length res) \<longrightarrow>
      (\<exists>r st' tr. generateImage lib pp body st =
         Some (r, st', ToBuffer (type (export body)) 100 # tr)))"
proof (intro conjI impI)
  show "compressImage lib buf fmt mb (Some 0) = compressImage lib buf fmt mb None"
    by (simp add: compressImage_def)
  show "\<exists>r tr. compressImage lib buf fmt mb (Some 0) = Some (r, ToBuffer fmt 100 # tr)"
    by (rule compressImage_first_call) simp
  show "\<exists>req. safeParse (ImageRequestSchema sample_valid_url (Some quality_zero_body)) = Inr req \<and>
      quality (export req) = 0"
    by (simp add: quality_zero_parse)
next
  assume a: "quality (export body) = 0 \<and> load_page pp body st = (Inr x, stl) \<and>
    pp (calls stl) (screenshot_call (export body)) = Inr res \<and>
    pp (calls stl @ [screenshot_call (export body)]) Close = Inr y \<and>
    maxFileSize (export body) < of_nat (length res)"
  from compressImage_first_call[of "Some 0" lib res "type (export body)"
      "maxFileSize (export body)"]
  obtain r tr where
    "compressImage lib res (type (export body)) (maxFileSize (export body)) (Some 0) =
       Some (r, ToBuffer (type (export body)) 100 # tr)"
    by auto
  then show "\<exists>r st' tr. generateImage lib pp body st =
         Some (r, st', ToBuffer (type (export body)) 100 # tr)"
    using a generateImage_captured[of pp body st x stl res y lib] by simp
qed

theorem C10_quality_zero_starts_at_100_witness:
  "\<exists>r st' tr. generateImage oversize_codec working_pages
      \<lparr>url = Some ''https://example.com'', html = None,
        export = example_image_export\<lparr>quality := 0, maxFileSize := 1\<rparr>\<rparr> idle_browser =
         Some (r, st', ToBuffer Png 100 # tr)"
proof -
  let ?body = "\<lparr>url = Some ''https://example.com'', html = None,
        export = example_image_export\<lparr>quality := 0, maxFileSize := 1\<rparr>\<rparr>"
  let ?st1 = "\<lparr>launched = True, open_pages = 1,
        calls = [NewPage, Goto ''https://example.com'']\<rparr>"
  have l: "load_page working_pages ?body idle_browser = (Inr [1, 2, 3], ?st1)"
    by (simp add: load_page_def page_op_def working_pages_def idle_browser_def
        example_image_export_def)
  have t: "type (export ?body) = Png" "quality (export ?body) = 0"
    "maxFileSize (export ?body) = 1"
    by (simp_all add: example_image_export_def)
  from C10_quality_zero_starts_at_100[where body = ?body and pp = working_pages
      and st = idle_browser and x = "[1, 2, 3]" and stl = ?st1 and res = "[1, 2, 3]"
      and y = "[1, 2, 3]" and lib = oversize_codec] l
  show ?thesis unfolding t by (simp add: working_pages_def)
qed

end
